theory Spec2Isabelle
  imports Main
begin

section \<open>Python strings\<close>

text \<open>
  A Python \<open>str\<close> is modelled as a \<open>string\<close>, each \<open>char\<close> standing for the code point
  of the same number (0 to 255). The character classes below are those of Python for
  that range.
\<close>

definition is_space :: "char \<Rightarrow> bool" where
  \<comment> \<open>\<open>str.isspace\<close> on one character: TAB to CR, FS to US, SPACE, NEL, NBSP.\<close>
  "is_space c = (let n = (of_char c :: nat)
                 in (9 \<le> n \<and> n \<le> 13) \<or> (28 \<le> n \<and> n \<le> 32) \<or> n = 133 \<or> n = 160)"

definition is_upper :: "char \<Rightarrow> bool" where
  "is_upper c = (let n = (of_char c :: nat) in 65 \<le> n \<and> n \<le> 90)"

definition is_lower :: "char \<Rightarrow> bool" where
  "is_lower c = (let n = (of_char c :: nat) in 97 \<le> n \<and> n \<le> 122)"

definition is_digit :: "char \<Rightarrow> bool" where
  "is_digit c = (let n = (of_char c :: nat) in 48 \<le> n \<and> n \<le> 57)"

definition lower_char :: "char \<Rightarrow> char" where
  \<comment> \<open>\<open>str.lower\<close> on one character: \<open>A-Z\<close>, and the capital letters of Latin-1
      (\<open>0xC0\<close> to \<open>0xDE\<close> without the multiplication sign \<open>0xD7\<close>), move up by 32.\<close>
  "lower_char c = (let n = (of_char c :: nat)
                   in if (65 \<le> n \<and> n \<le> 90) \<or> (192 \<le> n \<and> n \<le> 222 \<and> n \<noteq> 215)
                      then char_of (n + 32) else c)"

definition lower :: "string \<Rightarrow> string" where
  "lower s = map lower_char s"

definition strip_chars :: "(char \<Rightarrow> bool) \<Rightarrow> string \<Rightarrow> string" where
  \<comment> \<open>\<open>s.strip(chars)\<close>: drop the characters of the class at both ends.\<close>
  "strip_chars P s = rev (dropWhile P (rev (dropWhile P s)))"

definition startswith :: "string \<Rightarrow> string \<Rightarrow> bool" where
  "startswith s p = (take (length p) s = p)"

definition endswith :: "string \<Rightarrow> string \<Rightarrow> bool" where
  "endswith s p = (length p \<le> length s \<and> drop (length s - length p) s = p)"

fun partition_str :: "string \<Rightarrow> string \<Rightarrow> string \<times> string \<times> string" where
  \<comment> \<open>\<open>s.partition(sep)\<close> for a non-empty \<open>sep\<close>: split at the first occurrence;
      \<open>(s, '''', '''')\<close> when there is none.\<close>
  "partition_str [] sep = ([], [], [])"
| "partition_str (c # cs) sep =
     (if startswith (c # cs) sep then ([], sep, drop (length sep) (c # cs))
      else (case partition_str cs sep of (a, m, r) \<Rightarrow> (c # a, m, r)))"

definition split1 :: "string \<Rightarrow> char \<Rightarrow> string list" where
  \<comment> \<open>\<open>s.split(c, 1)\<close>: at most one split, at the first \<open>c\<close>.\<close>
  "split1 s c = (if c \<in> set s
                 then [takeWhile (\<lambda>d. d \<noteq> c) s, tl (dropWhile (\<lambda>d. d \<noteq> c) s)]
                 else [s])"

definition digit_char :: "nat \<Rightarrow> char" where
  "digit_char d = (if d = 0 then CHR ''0'' else if d = 1 then CHR ''1''
     else if d = 2 then CHR ''2'' else if d = 3 then CHR ''3''
     else if d = 4 then CHR ''4'' else if d = 5 then CHR ''5''
     else if d = 6 then CHR ''6'' else if d = 7 then CHR ''7''
     else if d = 8 then CHR ''8'' else CHR ''9'')"

fun str_nat :: "nat \<Rightarrow> string" where
  \<comment> \<open>\<open>str(n)\<close> and \<open>{n}\<close> in an f-string, for a non-negative integer.\<close>
  "str_nat n = (if n < 10 then [digit_char n]
                else str_nat (n div 10) @ [digit_char (n mod 10)])"

declare str_nat.simps [simp del]

section \<open>Errors\<close>

datatype error =
    ValueError string
  | RuntimeError string
  | StorageError string
  | ReaderError string
  | EncodeError string

fun error_text :: "error \<Rightarrow> string" where
  \<comment> \<open>\<open>str(e)\<close>\<close>
  "error_text (ValueError m) = m"
| "error_text (RuntimeError m) = m"
| "error_text (StorageError m) = m"
| "error_text (ReaderError m) = m"
| "error_text (EncodeError m) = m"

section \<open>Locators, names and flags\<close>

definition parse_s3_uri :: "string \<Rightarrow> error + (string \<times> string)" where
  "parse_s3_uri uri =
     (if \<not> startswith uri ''s3://'' then Inl (ValueError (''Invalid S3 URI: '' @ uri))
      else (case partition_str uri ''s3://'' of (_, _, rest) \<Rightarrow>
        (let parts = split1 rest (CHR ''/'');
             bucket = hd parts;
             key = (if length parts > 1 then parts ! 1 else [])
         in Inr (bucket, key))))"

definition normalize_prefix :: "string \<Rightarrow> string" where
  "normalize_prefix prefix =
     (if prefix \<noteq> [] \<and> \<not> endswith prefix ''/'' then prefix @ ''/'' else prefix)"

definition allowed :: "char \<Rightarrow> bool" where
  \<comment> \<open>the class \<open>[A-Za-z0-9._-]\<close>\<close>
  "allowed c = (is_upper c \<or> is_lower c \<or> is_digit c
                \<or> c = CHR ''.'' \<or> c = CHR ''_'' \<or> c = CHR ''-'')"

definition trimmed :: "char \<Rightarrow> bool" where
  \<comment> \<open>the characters of \<open>strip("._-")\<close>\<close>
  "trimmed c = (c = CHR ''.'' \<or> c = CHR ''_'' \<or> c = CHR ''-'')"

function sub_runs :: "string \<Rightarrow> string" where
  \<comment> \<open>\<open>re.sub(r"[^A-Za-z0-9._-]+", "_", s)\<close>: each maximal run of characters outside
      the class becomes one underscore.\<close>
  "sub_runs [] = []"
| "sub_runs (c # cs) =
     (if allowed c then c # sub_runs cs
      else CHR ''_'' # sub_runs (dropWhile (\<lambda>d. \<not> allowed d) cs))"
  by pat_completeness auto
termination
  by (relation "measure length") (auto simp: le_imp_less_Suc length_dropWhile_le)

definition safe_filename :: "string \<Rightarrow> string" where
  "safe_filename name =
     (let cleaned = sub_runs (strip_chars is_space name);
          cleaned = strip_chars trimmed cleaned
      in if cleaned = [] then ''unnamed'' else cleaned)"

definition str2bool :: "string \<Rightarrow> bool" where
  "str2bool v = (lower v \<in> {''1'', ''true'', ''t'', ''yes'', ''y''})"

section \<open>Rows, documents and the object store\<close>

text \<open>
  A row is the dictionary that \<open>csv.DictReader\<close> yields: an entry for each column name,
  whose value is \<open>None\<close> where a short record was padded, and, for a record longer than
  the header, the surplus cells under the key \<open>None\<close>.
\<close>

record row =
  cells :: "(string \<times> string option) list"
  surplus :: "string list option"

text \<open>
  What the reader delivers for one input object: the field names (\<open>None\<close> for an empty
  stream), the rows it yields, and the error that ends the iteration early, if any
  (undecodable bytes, malformed CSV).
\<close>

record source =
  header :: "string list option"
  records :: "row list"
  broken :: "error option"

record file_record =
  s3_uri :: string
  row_index :: nat
  source_identifier :: string

text \<open>
  The JSON documents are kept as the dictionaries handed to \<open>json.dumps\<close>. The clock
  readings of the summary and the traceback text of the failure report are left out.
\<close>

record manifest_doc =
  m_input :: string
  m_output_prefix :: string
  m_files :: "file_record list"
  m_total_rows :: nat
  m_id_column :: string

record summary_doc =
  s_status :: string
  s_input :: string
  s_output_prefix :: string
  s_total_rows :: nat
  s_id_column :: string
  s_fieldnames :: "string list option"
  s_manifest :: string

record failure_doc =
  f_status :: string
  f_error :: string
  f_input :: string
  f_output_prefix :: string
  f_processed_rows :: nat
  f_id_column :: string
  f_fieldnames :: "string list option"

datatype body =
    RowCsv string
  | ManifestJson manifest_doc
  | SummaryJson summary_doc
  | FailedJson failure_doc

record put =
  bucket :: string
  key :: string
  content :: body
  content_type :: string

text \<open>
  The collaborators of the job: the storage client, the CSV formatter configured with the
  job's delimiter and quote character (\<open>csv_line\<close> is one record without its line
  terminator), and the text encoding. \<open>put_fails n\<close> tells whether the \<open>n\<close>-th call of
  \<open>put_object\<close>, counted from 0, raises.
\<close>

record env =
  get_object :: "string \<Rightarrow> string \<Rightarrow> error + source"
  put_fails :: "nat \<Rightarrow> bool"
  csv_line :: "string list \<Rightarrow> string"
  encode :: "string \<Rightarrow> string option"

record args =
  input_s3_uri :: string
  output_s3_uri :: string
  id_column :: string
  include_header :: string
  write_run_log :: string

record state =
  total :: nat
  name_counts :: "string \<rightharpoonup> nat"
  manifest :: "file_record list"
  fieldnames :: "string list option"
  calls :: nat
  objects :: "put list"

definition init_state :: state where
  "init_state = \<lparr>total = 0, name_counts = Map.empty, manifest = [], fieldnames = None,
                 calls = 0, objects = []\<rparr>"

definition put_object :: "env \<Rightarrow> put \<Rightarrow> state \<Rightarrow> state \<times> error option" where
  "put_object E req st =
     (if put_fails E (calls st)
      then (st\<lparr>calls := calls st + 1\<rparr>, Some (StorageError ''put_object failed''))
      else (st\<lparr>calls := calls st + 1, objects := objects st @ [req]\<rparr>, None))"

section \<open>The row loop\<close>

definition row_label :: "nat \<Rightarrow> string" where
  \<comment> \<open>\<open>f"row-{idx}"\<close>\<close>
  "row_label idx = ''row-'' @ str_nat idx"

definition raw_name :: "string \<Rightarrow> nat \<Rightarrow> row \<Rightarrow> string" where
  \<comment> \<open>\<open>row.get(id_column) or f"row-{idx}"\<close>\<close>
  "raw_name idc idx r =
     (case map_of (cells r) idc of
        Some (Some v) \<Rightarrow> (if v = [] then row_label idx else v)
      | _ \<Rightarrow> row_label idx)"

definition base_name :: "nat \<Rightarrow> string \<Rightarrow> string" where
  \<comment> \<open>\<open>safe_filename(str(raw_name)) or f"row-{idx}"\<close>\<close>
  "base_name idx raw =
     (let s = safe_filename raw in if s = [] then row_label idx else s)"

definition final_name :: "string \<Rightarrow> nat \<Rightarrow> string" where
  \<comment> \<open>\<open>base_name if count == 0 else f"{base_name}-{count}"\<close>\<close>
  "final_name b count = (if count = 0 then b else b @ ''-'' @ str_nat count)"

definition get_count :: "(string \<rightharpoonup> nat) \<Rightarrow> string \<Rightarrow> nat" where
  \<comment> \<open>\<open>name_counts.get(base_name, 0)\<close>\<close>
  "get_count m b = (case m b of None \<Rightarrow> 0 | Some c \<Rightarrow> c)"

definition dict_to_list :: "string list \<Rightarrow> row \<Rightarrow> error + string list" where
  \<comment> \<open>\<open>csv.DictWriter\<close> turning the dictionary into cells: a key that is not a field name
      is refused; a missing or \<open>None\<close> value is written as the empty string.\<close>
  "dict_to_list fns r =
     (if surplus r \<noteq> None \<or> list_ex (\<lambda>k. k \<notin> set fns) (map fst (cells r))
      then Inl (ValueError ''dict contains fields not in fieldnames'')
      else Inr (map (\<lambda>k. case map_of (cells r) k of Some (Some v) \<Rightarrow> v | _ \<Rightarrow> []) fns))"

definition row_text :: "env \<Rightarrow> bool \<Rightarrow> string list \<Rightarrow> row \<Rightarrow> error + string" where
  \<comment> \<open>the buffer after \<open>writeheader\<close> (if asked for) and \<open>writerow\<close>, line terminator
      \<open>"\n"\<close>\<close>
  "row_text E hdr fns r =
     (case dict_to_list fns r of
        Inl e \<Rightarrow> Inl e
      | Inr vs \<Rightarrow> Inr ((if hdr then csv_line E fns @ [CHR 0x0A] else [])
                       @ csv_line E vs @ [CHR 0x0A]))"

definition row_bytes :: "env \<Rightarrow> bool \<Rightarrow> string list \<Rightarrow> row \<Rightarrow> error + string" where
  \<comment> \<open>\<open>buf.getvalue().encode(encoding)\<close>\<close>
  "row_bytes E hdr fns r =
     (case row_text E hdr fns r of
        Inl e \<Rightarrow> Inl e
      | Inr t \<Rightarrow> (case encode E t of
                    None \<Rightarrow> Inl (EncodeError ''cannot encode'')
                  | Some d \<Rightarrow> Inr d))"

definition process_row ::
  "env \<Rightarrow> args \<Rightarrow> bool \<Rightarrow> string \<Rightarrow> string \<Rightarrow> string list \<Rightarrow> nat \<Rightarrow> row \<Rightarrow> state
   \<Rightarrow> state \<times> error option" where
  \<comment> \<open>one pass through the body of the \<open>for\<close> loop\<close>
  "process_row E A hdr output_bucket output_prefix fns idx r st =
     (let st1 = st\<lparr>total := total st + 1\<rparr>;
          raw = raw_name (id_column A) idx r;
          b = base_name idx raw;
          count = get_count (name_counts st1) b;
          st2 = st1\<lparr>name_counts := (name_counts st1)(b \<mapsto> count + 1)\<rparr>;
          out_key = output_prefix @ final_name b count @ ''.csv''
      in case row_bytes E hdr fns r of
           Inl e \<Rightarrow> (st2, Some e)
         | Inr d \<Rightarrow>
            (case put_object E \<lparr>bucket = output_bucket, key = out_key, content = RowCsv d,
                                content_type = ''text/csv''\<rparr> st2 of
               (st3, Some e) \<Rightarrow> (st3, Some e)
             | (st3, None) \<Rightarrow>
                (st3\<lparr>manifest := manifest st3 @
                    [\<lparr>s3_uri = ''s3://'' @ output_bucket @ ''/'' @ out_key,
                      row_index = idx, source_identifier = raw\<rparr>]\<rparr>, None)))"

fun rows_loop ::
  "env \<Rightarrow> args \<Rightarrow> bool \<Rightarrow> string \<Rightarrow> string \<Rightarrow> string list \<Rightarrow> error option \<Rightarrow> nat
   \<Rightarrow> row list \<Rightarrow> state \<Rightarrow> state \<times> error option" where
  \<comment> \<open>\<open>for idx, row in enumerate(reader, start=1)\<close>; \<open>stop\<close> is the error the reader
      raises instead of a further row, if it does\<close>
  "rows_loop E A hdr ob op fns stop idx [] st = (st, stop)"
| "rows_loop E A hdr ob op fns stop idx (r # rs) st =
     (case process_row E A hdr ob op fns idx r st of
        (st', Some e) \<Rightarrow> (st', Some e)
      | (st', None) \<Rightarrow> rows_loop E A hdr ob op fns stop (Suc idx) rs st')"

section \<open>The job\<close>

datatype outcome = Succeeded | Raised error

definition manifest_put :: "args \<Rightarrow> string \<Rightarrow> string \<Rightarrow> state \<Rightarrow> put" where
  "manifest_put A ob op st =
     \<lparr>bucket = ob, key = op @ ''_MANIFEST.json'',
      content = ManifestJson
        \<lparr>m_input = input_s3_uri A, m_output_prefix = ''s3://'' @ ob @ ''/'' @ op,
         m_files = manifest st, m_total_rows = total st, m_id_column = id_column A\<rparr>,
      content_type = ''application/json''\<rparr>"

definition summary_put :: "args \<Rightarrow> string \<Rightarrow> string \<Rightarrow> state \<Rightarrow> put" where
  "summary_put A ob op st =
     \<lparr>bucket = ob, key = op @ ''RUN_SUMMARY.json'',
      content = SummaryJson
        \<lparr>s_status = ''SUCCEEDED'', s_input = input_s3_uri A,
         s_output_prefix = ''s3://'' @ ob @ ''/'' @ op, s_total_rows = total st,
         s_id_column = id_column A, s_fieldnames = fieldnames st,
         s_manifest = ''s3://'' @ ob @ ''/'' @ op @ ''_MANIFEST.json''\<rparr>,
      content_type = ''application/json''\<rparr>"

definition failed_put :: "args \<Rightarrow> string \<Rightarrow> string \<Rightarrow> error \<Rightarrow> state \<Rightarrow> put" where
  "failed_put A ob op e st =
     \<lparr>bucket = ob, key = op @ ''RUN_FAILED.txt'',
      content = FailedJson
        \<lparr>f_status = ''FAILED'', f_error = error_text e, f_input = input_s3_uri A,
         f_output_prefix = ''s3://'' @ ob @ ''/'' @ op, f_processed_rows = total st,
         f_id_column = id_column A, f_fieldnames = fieldnames st\<rparr>,
      content_type = ''text/plain''\<rparr>"

definition split_body ::
  "env \<Rightarrow> args \<Rightarrow> bool \<Rightarrow> bool \<Rightarrow> string \<Rightarrow> string \<Rightarrow> string \<Rightarrow> string
   \<Rightarrow> state \<times> error option" where
  \<comment> \<open>the \<open>try\<close> block of \<open>main\<close>\<close>
  "split_body E A hdr wlog ib ik ob op =
     (case get_object E ib ik of
        Inl e \<Rightarrow> (init_state, Some e)
      | Inr src \<Rightarrow>
         (let st0 = init_state\<lparr>fieldnames := header src\<rparr>
          in case header src of
               None \<Rightarrow> (st0, Some (RuntimeError
                 ''No CSV header/fieldnames detected. Ensure the input has a header row.''))
             | Some fns \<Rightarrow>
                if fns = [] then (st0, Some (RuntimeError
                 ''No CSV header/fieldnames detected. Ensure the input has a header row.''))
                else
                 (case rows_loop E A hdr ob op fns (broken src) 1 (records src) st0 of
                    (st1, Some e) \<Rightarrow> (st1, Some e)
                  | (st1, None) \<Rightarrow>
                     (case put_object E (manifest_put A ob op st1) st1 of
                        (st2, Some e) \<Rightarrow> (st2, Some e)
                      | (st2, None) \<Rightarrow>
                         if wlog then put_object E (summary_put A ob op st2) st2
                         else (st2, None)))))"

definition main :: "env \<Rightarrow> args \<Rightarrow> outcome \<times> put list" where
  \<comment> \<open>the outcome of the job and the objects written, in the order of writing\<close>
  "main E A =
     (let hdr = str2bool (include_header A);
          wlog = str2bool (write_run_log A)
      in case parse_s3_uri (input_s3_uri A) of
           Inl e \<Rightarrow> (Raised e, [])
         | Inr (ib, ik) \<Rightarrow>
            (case parse_s3_uri (output_s3_uri A) of
               Inl e \<Rightarrow> (Raised e, [])
             | Inr (ob, op0) \<Rightarrow>
                (let op = normalize_prefix op0
                 in case split_body E A hdr wlog ib ik ob op of
                      (st, None) \<Rightarrow> (Succeeded, objects st)
                    | (st, Some e) \<Rightarrow>
                       (if wlog
                        then (Raised e, objects (fst (put_object E (failed_put A ob op e st) st)))
                        else (Raised e, objects st)))))"

section \<open>Notions for stating the properties\<close>

text \<open>
  The raw names and base names of the rows of a run, numbered from \<open>idx\<close>, and the names
  the registry of the loop hands out for a list of base names, starting from the counts
  \<open>m\<close>.
\<close>

fun raw_names :: "string \<Rightarrow> nat \<Rightarrow> row list \<Rightarrow> string list" where
  "raw_names idc idx [] = []"
| "raw_names idc idx (r # rs) = raw_name idc idx r # raw_names idc (Suc idx) rs"

fun base_names :: "string \<Rightarrow> nat \<Rightarrow> row list \<Rightarrow> string list" where
  "base_names idc idx [] = []"
| "base_names idc idx (r # rs) =
     base_name idx (raw_name idc idx r) # base_names idc (Suc idx) rs"

fun registry_names :: "(string \<rightharpoonup> nat) \<Rightarrow> string list \<Rightarrow> string list" where
  \<comment> \<open>the three registry lines of the loop body (\<open>count\<close>, \<open>name_counts[...]\<close>, \<open>final_name\<close>),
      run over a list of base names\<close>
  "registry_names m [] = []"
| "registry_names m (b # bs) =
     final_name b (get_count m b) # registry_names (m(b \<mapsto> get_count m b + 1)) bs"

text \<open>The object written for a row, and its record in the manifest.\<close>

definition row_object :: "string \<Rightarrow> string \<Rightarrow> string \<Rightarrow> string \<Rightarrow> put" where
  "row_object ob op nm d =
     \<lparr>bucket = ob, key = op @ nm @ ''.csv'', content = RowCsv d, content_type = ''text/csv''\<rparr>"

definition file_entry :: "string \<Rightarrow> string \<Rightarrow> nat \<Rightarrow> string \<Rightarrow> string \<Rightarrow> file_record" where
  "file_entry ob op i raw nm =
     \<lparr>s3_uri = ''s3://'' @ ob @ ''/'' @ op @ nm @ ''.csv'', row_index = i,
      source_identifier = raw\<rparr>"

definition is_row_object :: "put \<Rightarrow> bool" where
  "is_row_object p = (case content p of RowCsv _ \<Rightarrow> True | _ \<Rightarrow> False)"

definition is_manifest_object :: "put \<Rightarrow> bool" where
  "is_manifest_object p = (case content p of ManifestJson _ \<Rightarrow> True | _ \<Rightarrow> False)"

definition collision_name :: "string list \<Rightarrow> nat \<Rightarrow> string" where
  \<comment> \<open>The naming rule in the words of the specification, for comparison with the loop:
      the first row with base name \<open>b\<close> is named \<open>b\<close>, and the row that has \<open>n > 0\<close> earlier rows
      with the same base name is named \<open>b-n\<close>.\<close>
  "collision_name bs i =
     (let b = bs ! i; n = count_list (take i bs) b
      in if n = 0 then b else b @ ''-'' @ str_nat n)"

text \<open>Reading the written objects back: the text of a per-row object, the failure reports.\<close>

definition csv_body :: "put \<Rightarrow> string option" where
  "csv_body p = (case content p of RowCsv d \<Rightarrow> Some d | _ \<Rightarrow> None)"

definition row_line :: "env \<Rightarrow> string list \<Rightarrow> row \<Rightarrow> string" where
  \<comment> \<open>the data row of \<open>r\<close> as one record, followed by the line terminator\<close>
  "row_line E fns r =
     csv_line E (map (\<lambda>k. case map_of (cells r) k of Some (Some v) \<Rightarrow> v | _ \<Rightarrow> []) fns)
     @ [CHR 0x0A]"

definition failure_docs :: "put list \<Rightarrow> failure_doc list" where
  "failure_docs ps =
     concat (map (\<lambda>p. case content p of FailedJson fd \<Rightarrow> [fd] | _ \<Rightarrow> []) ps)"

text \<open>
  A small run for evaluating the job on concrete inputs: two columns, a formatter that
  joins the cells with commas, an encoding that accepts every text, and a store that fails
  at the calls picked by \<open>f\<close>.
\<close>

fun join_commas :: "string list \<Rightarrow> string" where
  "join_commas [] = []"
| "join_commas [c] = c"
| "join_commas (c # cs) = c @ '','' @ join_commas cs"

definition sample_header :: "string list" where
  "sample_header = [''source_identifier'', ''amount'']"

definition sample_row :: "string \<Rightarrow> row" where
  "sample_row v =
     \<lparr>cells = [(''source_identifier'', Some v), (''amount'', Some ''7'')], surplus = None\<rparr>"

definition sample_source :: "row list \<Rightarrow> source" where
  "sample_source rs = \<lparr>header = Some sample_header, records = rs, broken = None\<rparr>"

definition sample_env :: "source \<Rightarrow> (nat \<Rightarrow> bool) \<Rightarrow> env" where
  "sample_env src f =
     \<lparr>get_object = (\<lambda>b k. Inr src), put_fails = f, csv_line = join_commas, encode = Some\<rparr>"

definition sample_args :: "string \<Rightarrow> string \<Rightarrow> args" where
  "sample_args h w =
     \<lparr>input_s3_uri = ''s3://in/data.csv'', output_s3_uri = ''s3://out/split'',
      id_column = ''source_identifier'', include_header = h, write_run_log = w\<rparr>"

text \<open>
  The objects that exist in the store after a sequence of writes: a write under a bucket
  and key that already hold an object replaces that object.
\<close>

definition overwrite :: "put \<Rightarrow> put list \<Rightarrow> put list" where
  "overwrite p st = filter (\<lambda>q. \<not> (bucket q = bucket p \<and> key q = key p)) st @ [p]"

definition stored :: "put list \<Rightarrow> put list" where
  "stored ps = foldl (\<lambda>st p. overwrite p st) [] ps"

definition manifest_docs :: "put list \<Rightarrow> manifest_doc list" where
  "manifest_docs ps =
     concat (map (\<lambda>p. case content p of ManifestJson md \<Rightarrow> [md] | _ \<Rightarrow> []) ps)"

text \<open>
  Lines. The cells that \<open>csv.DictWriter\<close> hands to the formatter for a row, the number of
  line feeds in a text, and what is assumed of a formatter where the number of lines
  matters: it copies the line feeds of the cells and adds none.
\<close>

definition row_cells :: "string list \<Rightarrow> row \<Rightarrow> string list" where
  "row_cells fns r =
     map (\<lambda>k. case map_of (cells r) k of Some (Some v) \<Rightarrow> v | _ \<Rightarrow> []) fns"

definition line_breaks :: "string \<Rightarrow> nat" where
  "line_breaks s = count_list s (CHR 0x0A)"

definition keeps_line_breaks :: "(string list \<Rightarrow> string) \<Rightarrow> bool" where
  "keeps_line_breaks fmt = (\<forall>cs. line_breaks (fmt cs) = sum_list (map line_breaks cs))"

text \<open>
  The formatter of Python's \<open>csv.writer\<close> with the quoting the job leaves at its default
  (\<open>QUOTE_MINIMAL\<close>, \<open>doublequote\<close>), for a delimiter \<open>dl\<close>, a quote character \<open>qc\<close> and the line
  terminator \<open>"\n"\<close>: a cell is put in quotes when it contains the delimiter, the quote
  character or a line feed, the quote characters inside it are doubled, and a record of
  one empty cell is written as two quote characters. The line terminator is not part of
  the result.
\<close>

definition csv_field :: "char \<Rightarrow> char \<Rightarrow> string \<Rightarrow> string" where
  "csv_field dl qc f =
     (if list_ex (\<lambda>c. c = dl \<or> c = qc \<or> c = CHR 0x0A) f
      then [qc] @ concat (map (\<lambda>c. if c = qc then [qc, qc] else [c]) f) @ [qc]
      else f)"

fun join_with :: "char \<Rightarrow> string list \<Rightarrow> string" where
  "join_with dl [] = []"
| "join_with dl [c] = c"
| "join_with dl (c # cs) = c @ [dl] @ join_with dl cs"

definition csv_minimal :: "char \<Rightarrow> char \<Rightarrow> string list \<Rightarrow> string" where
  "csv_minimal dl qc cs =
     (if cs = [[]] then [qc, qc] else join_with dl (map (csv_field dl qc) cs))"

text \<open>
  A run with that formatter, comma and double quote, over a store that never fails; and a
  row whose second cell holds two lines, as the reader yields it for a quoted cell that
  spans two lines of the input.
\<close>

definition never_fails :: "nat \<Rightarrow> bool" where
  "never_fails n = False"

definition csv_env :: "source \<Rightarrow> env" where
  "csv_env src =
     \<lparr>get_object = (\<lambda>b k. Inr src), put_fails = never_fails,
      csv_line = csv_minimal (CHR '','') (CHR 0x22), encode = Some\<rparr>"

definition memo_row :: row where
  "memo_row =
     \<lparr>cells = [(''source_identifier'', Some ''a''),
               (''amount'', Some (''x'' @ [CHR 0x0A] @ ''y''))], surplus = None\<rparr>"

section \<open>The sanitiser\<close>

lemma allowed_underscore: "allowed (CHR ''_'')"
  by (simp add: allowed_def)

lemma space_not_allowed: "is_space c \<Longrightarrow> \<not> allowed c"
  by (auto simp: is_space_def allowed_def is_upper_def is_lower_def is_digit_def Let_def)

lemma sub_runs_allowed: "list_all allowed (sub_runs s)"
  by (induction s rule: sub_runs.induct) (simp_all add: allowed_underscore)

lemma sub_runs_id: "list_all allowed s \<Longrightarrow> sub_runs s = s"
  by (induction s) simp_all

lemma strip_chars_subset: "set (strip_chars P s) \<subseteq> set s"
proof
  fix x assume "x \<in> set (strip_chars P s)"
  then have "x \<in> set (dropWhile P (rev (dropWhile P s)))" by (simp add: strip_chars_def)
  then have "x \<in> set (rev (dropWhile P s))" by (rule set_dropWhileD)
  then have "x \<in> set (dropWhile P s)" by simp
  then show "x \<in> set s" by (rule set_dropWhileD)
qed

lemma strip_chars_last: "strip_chars P s \<noteq> [] \<Longrightarrow> \<not> P (last (strip_chars P s))"
  unfolding strip_chars_def by (simp add: last_rev hd_dropWhile)

lemma rev_dropWhile_rev_hd:
  "rev (dropWhile P (rev ys)) \<noteq> [] \<Longrightarrow> hd (rev (dropWhile P (rev ys))) = hd ys"
proof (induction ys rule: rev_induct)
  case Nil
  then show ?case by simp
next
  case (snoc y ys)
  then show ?case by (cases "P y"; cases ys) auto
qed

lemma strip_chars_hd: "strip_chars P s \<noteq> [] \<Longrightarrow> \<not> P (hd (strip_chars P s))"
proof -
  assume ne: "strip_chars P s \<noteq> []"
  have "dropWhile P s \<noteq> []"
  proof
    assume a: "dropWhile P s = []"
    have "strip_chars P s = rev (dropWhile P (rev []))"
      unfolding strip_chars_def a ..
    with ne show False by simp
  qed
  then have "\<not> P (hd (dropWhile P s))" by (rule hd_dropWhile)
  moreover have "hd (strip_chars P s) = hd (dropWhile P s)"
    using ne unfolding strip_chars_def by (rule rev_dropWhile_rev_hd)
  ultimately show ?thesis by simp
qed

lemma strip_chars_id: "s \<noteq> [] \<Longrightarrow> \<not> P (hd s) \<Longrightarrow> \<not> P (last s) \<Longrightarrow> strip_chars P s = s"
proof -
  assume a: "s \<noteq> []" "\<not> P (hd s)" "\<not> P (last s)"
  then have 1: "dropWhile P s = s" by (cases s) auto
  have "dropWhile P (rev s) = rev s" using a by (cases "rev s") (auto simp: hd_rev)
  with 1 show ?thesis by (simp add: strip_chars_def)
qed

lemma safe_filename_unnamed: "safe_filename ''unnamed'' = ''unnamed''"
  by code_simp

text \<open>
  Claim C8. Sanitising is idempotent: applying \<open>safe_filename\<close> to one of its own
  results gives that result back, for every string.
\<close>

theorem safe_filename_idempotent: "safe_filename (safe_filename x) = safe_filename x"
proof -
  define t where "t = strip_chars trimmed (sub_runs (strip_chars is_space x))"
  show ?thesis
  proof (cases "t = []")
    case True
    then have "safe_filename x = ''unnamed''" by (simp add: safe_filename_def t_def)
    then show ?thesis by (simp add: safe_filename_unnamed)
  next
    case False
    then have sx: "safe_filename x = t" by (simp add: safe_filename_def t_def)
    have "set t \<subseteq> set (sub_runs (strip_chars is_space x))"
      unfolding t_def by (rule strip_chars_subset)
    with sub_runs_allowed [of "strip_chars is_space x"] have al: "list_all allowed t"
      by (auto simp: list_all_iff)
    have h: "\<not> trimmed (hd t)" and l: "\<not> trimmed (last t)"
      using False strip_chars_hd [of trimmed] strip_chars_last [of trimmed] by (auto simp: t_def)
    from al False have "allowed (hd t)" "allowed (last t)" by (auto simp: list_all_iff)
    then have "\<not> is_space (hd t)" "\<not> is_space (last t)" using space_not_allowed by blast+
    with False have 1: "strip_chars is_space t = t" by (simp add: strip_chars_id)
    from al have 2: "sub_runs t = t" by (rule sub_runs_id)
    from False h l have 3: "strip_chars trimmed t = t" by (simp add: strip_chars_id)
    from 1 2 3 False have "safe_filename t = t" by (simp add: safe_filename_def)
    with sx show ?thesis by simp
  qed
qed

section \<open>The row loop, step by step\<close>

lemma process_row_ok:
  assumes "process_row E A hdr ob op fns idx r st = (st', None)"
  shows "\<exists>d. row_bytes E hdr fns r = Inr d \<and> \<not> put_fails E (calls st) \<and>
     st' = st\<lparr>total := total st + 1,
       name_counts := (name_counts st)(base_name idx (raw_name (id_column A) idx r) \<mapsto>
          get_count (name_counts st) (base_name idx (raw_name (id_column A) idx r)) + 1),
       calls := calls st + 1,
       objects := objects st @ [row_object ob op
          (final_name (base_name idx (raw_name (id_column A) idx r))
             (get_count (name_counts st) (base_name idx (raw_name (id_column A) idx r)))) d],
       manifest := manifest st @ [file_entry ob op idx (raw_name (id_column A) idx r)
          (final_name (base_name idx (raw_name (id_column A) idx r))
             (get_count (name_counts st) (base_name idx (raw_name (id_column A) idx r))))]\<rparr>"
  using assms
  by (auto simp: process_row_def put_object_def row_object_def file_entry_def Let_def
           split: sum.splits if_splits)

lemma process_row_err:
  assumes "process_row E A hdr ob op fns idx r st = (st', Some e)"
  shows "objects st' = objects st \<and> manifest st' = manifest st \<and> total st' = total st + 1
     \<and> fieldnames st' = fieldnames st
     \<and> (row_bytes E hdr fns r = Inl e \<or>
        (\<exists>d. row_bytes E hdr fns r = Inr d) \<and> put_fails E (calls st) \<and> (\<exists>m. e = StorageError m))"
  using assms
  by (auto simp: process_row_def put_object_def Let_def split: sum.splits if_splits)

lemma rows_loop_shape:
  "rows_loop E A hdr ob op fns stop idx rs st = (st', err) \<Longrightarrow>
   \<exists>n ds. n \<le> length rs \<and> length ds = n
     \<and> map (row_bytes E hdr fns) (take n rs) = map Inr ds
     \<and> objects st' = objects st @ map (\<lambda>(nm, d). row_object ob op nm d)
          (zip (take n (registry_names (name_counts st) (base_names (id_column A) idx rs))) ds)
     \<and> manifest st' = manifest st @ map (\<lambda>(i, raw, nm). file_entry ob op i raw nm)
          (zip [idx..<idx + n] (zip (raw_names (id_column A) idx rs)
             (registry_names (name_counts st) (base_names (id_column A) idx rs))))
     \<and> fieldnames st' = fieldnames st
     \<and> (\<forall>i<n. \<not> put_fails E (calls st + i))
     \<and> (err = None \<longrightarrow> n = length rs \<and> stop = None \<and> total st' = total st + n
           \<and> calls st' = calls st + n)
     \<and> (err \<noteq> None \<longrightarrow> (n = length rs \<and> err = stop \<and> total st' = total st + n)
           \<or> (n < length rs \<and> total st' = total st + n + 1
               \<and> (row_bytes E hdr fns (rs ! n) = Inl (the err) \<or> put_fails E (calls st + n))))"
proof (induction rs arbitrary: idx st)
  case Nil
  then show ?case by auto
next
  case (Cons r rs)
  obtain st1 e1 where pr: "process_row E A hdr ob op fns idx r st = (st1, e1)"
    by (cases "process_row E A hdr ob op fns idx r st")
  show ?case
  proof (cases e1)
    case (Some e)
    with pr Cons.prems have eq: "st' = st1" "err = Some e" by auto
    from process_row_err [OF pr [unfolded Some]] eq
    show ?thesis
      by (intro exI [of _ 0] exI [of _ "[]"]) auto
  next
    case None
    with pr Cons.prems
    have loop: "rows_loop E A hdr ob op fns stop (Suc idx) rs st1 = (st', err)" by simp
    from process_row_ok [OF pr [unfolded None]] obtain d where
      d: "row_bytes E hdr fns r = Inr d" and nf: "\<not> put_fails E (calls st)" and
      st1: "st1 = st\<lparr>total := total st + 1,
       name_counts := (name_counts st)(base_name idx (raw_name (id_column A) idx r) \<mapsto>
          get_count (name_counts st) (base_name idx (raw_name (id_column A) idx r)) + 1),
       calls := calls st + 1,
       objects := objects st @ [row_object ob op
          (final_name (base_name idx (raw_name (id_column A) idx r))
             (get_count (name_counts st) (base_name idx (raw_name (id_column A) idx r)))) d],
       manifest := manifest st @ [file_entry ob op idx (raw_name (id_column A) idx r)
          (final_name (base_name idx (raw_name (id_column A) idx r))
             (get_count (name_counts st) (base_name idx (raw_name (id_column A) idx r))))]\<rparr>"
      by blast
    from Cons.IH [OF loop] obtain n ds where
      n: "n \<le> length rs" "length ds = n"
      and byt: "map (row_bytes E hdr fns) (take n rs) = map Inr ds"
      and ob: "objects st' = objects st1 @ map (\<lambda>(nm, d). row_object ob op nm d)
          (zip (take n (registry_names (name_counts st1) (base_names (id_column A) (Suc idx) rs))) ds)"
      and mf: "manifest st' = manifest st1 @ map (\<lambda>(i, raw, nm). file_entry ob op i raw nm)
          (zip [Suc idx..<Suc idx + n] (zip (raw_names (id_column A) (Suc idx) rs)
             (registry_names (name_counts st1) (base_names (id_column A) (Suc idx) rs))))"
      and fn: "fieldnames st' = fieldnames st1"
      and pf: "\<forall>i<n. \<not> put_fails E (calls st1 + i)"
      and ok: "err = None \<longrightarrow> n = length rs \<and> stop = None \<and> total st' = total st1 + n
           \<and> calls st' = calls st1 + n"
      and ko: "err \<noteq> None \<longrightarrow> (n = length rs \<and> err = stop \<and> total st' = total st1 + n)
           \<or> (n < length rs \<and> total st' = total st1 + n + 1
               \<and> (row_bytes E hdr fns (rs ! n) = Inl (the err) \<or> put_fails E (calls st1 + n)))"
      by blast
    have upt: "[idx..<idx + Suc n] = idx # [Suc idx..<Suc idx + n]"
      by (simp add: upt_conv_Cons)
    have pf': "\<forall>i<Suc n. \<not> put_fails E (calls st + i)"
    proof (intro allI impI)
      fix i assume "i < Suc n"
      show "\<not> put_fails E (calls st + i)"
      proof (cases i)
        case 0 with nf show ?thesis by simp
      next
        case (Suc j)
        with \<open>i < Suc n\<close> pf have "\<not> put_fails E (calls st1 + j)" by simp
        with Suc st1 show ?thesis by simp
      qed
    qed
    show ?thesis
      apply (rule exI [of _ "Suc n"], rule exI [of _ "d # ds"])
      apply (intro conjI)
      subgoal using n by simp
      subgoal using n by simp
      subgoal using byt d by simp
      subgoal using ob st1 by simp
      subgoal unfolding upt using mf st1 by simp
      subgoal using fn st1 by simp
      subgoal using pf' .
      subgoal using ok st1 by simp
      subgoal using ko st1 by auto
      done
  qed
qed

lemma get_count_upd:
  "get_count (m(b \<mapsto> Suc (get_count m b))) x = get_count m x + (if x = b then 1 else 0)"
  by (simp add: get_count_def)

lemma length_registry_names [simp]: "length (registry_names m bs) = length bs"
  by (induction bs arbitrary: m) simp_all

lemma length_base_names [simp]: "length (base_names idc idx rs) = length rs"
  by (induction rs arbitrary: idx) simp_all

lemma length_raw_names [simp]: "length (raw_names idc idx rs) = length rs"
  by (induction rs arbitrary: idx) simp_all

lemma registry_names_nth:
  "i < length bs \<Longrightarrow>
   registry_names m bs ! i =
     final_name (bs ! i) (get_count m (bs ! i) + count_list (take i bs) (bs ! i))"
proof (induction bs arbitrary: m i)
  case Nil
  then show ?case by simp
next
  case (Cons b bs)
  show ?case
  proof (cases i)
    case 0
    then show ?thesis by simp
  next
    case (Suc j)
    with Cons.prems have j: "j < length bs" by simp
    have "registry_names (m(b \<mapsto> Suc (get_count m b))) bs ! j =
       final_name (bs ! j)
         (get_count (m(b \<mapsto> Suc (get_count m b))) (bs ! j) + count_list (take j bs) (bs ! j))"
      using j by (rule Cons.IH)
    then show ?thesis using Suc by (simp add: get_count_upd)
  qed
qed

lemma registry_names_empty_nth:
  "i < length bs \<Longrightarrow> registry_names Map.empty bs ! i = collision_name bs i"
  by (simp add: registry_names_nth collision_name_def final_name_def get_count_def Let_def)

lemma main_cases:
  assumes pin: "parse_s3_uri (input_s3_uri A) = Inr (ib, ik)"
    and pout: "parse_s3_uri (output_s3_uri A) = Inr (ob, op0)"
    and src: "get_object E ib ik = Inr src"
    and hd: "header src = Some fns" "fns \<noteq> []"
    and loop: "rows_loop E A (str2bool (include_header A)) ob (normalize_prefix op0) fns
        (broken src) 1 (records src) (init_state\<lparr>fieldnames := Some fns\<rparr>) = (st1, err)"
  shows "\<exists>rest. snd (main E A) = objects st1 @ rest \<and> list_all (\<lambda>p. \<not> is_row_object p) rest
      \<and> (err \<noteq> None \<longrightarrow> fst (main E A) = Raised (the err) \<and>
           rest = (if str2bool (write_run_log A) \<and> \<not> put_fails E (calls st1)
                   then [failed_put A ob (normalize_prefix op0) (the err) st1] else []))
      \<and> (fst (main E A) = Succeeded \<longrightarrow> err = None \<and>
           rest = manifest_put A ob (normalize_prefix op0) st1 #
             (if str2bool (write_run_log A)
              then [summary_put A ob (normalize_prefix op0) st1] else []))"
proof (cases err)
  case None
  with assms show ?thesis
    by (simp add: main_def split_body_def put_object_def Let_def is_row_object_def
        manifest_put_def summary_put_def failed_put_def)
next
  case (Some e)
  with assms show ?thesis
    by (simp add: main_def split_body_def put_object_def Let_def is_row_object_def
        failed_put_def)
qed

section \<open>Locators\<close>

lemma scheme_length: "length ''s3://'' = 5"
  by simp

lemma partition_at_start:
  "startswith uri sep \<Longrightarrow> uri \<noteq> [] \<Longrightarrow> partition_str uri sep = ([], sep, drop (length sep) uri)"
  by (cases uri) simp_all

lemma parse_s3_uri_accepts:
  assumes "startswith uri ''s3://''"
  shows "parse_s3_uri uri =
     Inr (takeWhile (\<lambda>c. c \<noteq> CHR ''/'') (drop 5 uri),
          tl (dropWhile (\<lambda>c. c \<noteq> CHR ''/'') (drop 5 uri)))"
proof -
  from assms have ne: "uri \<noteq> []" by (auto simp: startswith_def)
  have p: "partition_str uri ''s3://'' = ([], ''s3://'', drop 5 uri)"
    using partition_at_start [OF assms ne] unfolding scheme_length .
  show ?thesis
  proof (cases "CHR ''/'' \<in> set (drop 5 uri)")
    case True
    with assms p show ?thesis by (simp add: parse_s3_uri_def split1_def)
  next
    case False
    then have tw: "takeWhile (\<lambda>c. c \<noteq> CHR ''/'') (drop 5 uri) = drop 5 uri"
      by (auto simp: takeWhile_eq_all_conv)
    from False have dw: "dropWhile (\<lambda>c. c \<noteq> CHR ''/'') (drop 5 uri) = []"
      by auto
    have "parse_s3_uri uri = Inr (drop 5 uri, [])"
      using False assms p by (simp add: parse_s3_uri_def split1_def)
    then show ?thesis by (simp only: tw dw list.sel)
  qed
qed

text \<open>
  Claim C9, as stated, fails: a locator with nothing, or with a slash, right after the
  scheme prefix is accepted and gives the empty bucket.
\<close>

theorem parse_s3_uri_empty_bucket:
  "parse_s3_uri ''s3:///data.csv'' = Inr ([], ''data.csv'') \<and> parse_s3_uri ''s3://'' = Inr ([], [])"
  by (simp add: parse_s3_uri_def startswith_def split1_def)

text \<open>
  Claim C9, amended. An accepted locator begins with the scheme prefix; its bucket is the
  text between the prefix and the first slash (or the end of the string), and it is
  empty exactly when the string ends after the prefix or a slash follows the prefix.
\<close>

theorem parse_s3_uri_bucket:
  assumes "parse_s3_uri uri = Inr (b, k)"
  shows "startswith uri ''s3://''
     \<and> b = takeWhile (\<lambda>c. c \<noteq> CHR ''/'') (drop 5 uri)
     \<and> (b = [] \<longleftrightarrow> length uri = 5 \<or> uri ! 5 = CHR ''/'')"
proof -
  from assms have sw: "startswith uri ''s3://''"
    by (auto simp: parse_s3_uri_def split: if_splits)
  from parse_s3_uri_accepts [OF sw] assms
  have b: "b = takeWhile (\<lambda>c. c \<noteq> CHR ''/'') (drop 5 uri)" by simp
  from sw have t: "take 5 uri = ''s3://''" unfolding startswith_def scheme_length .
  then have "length (take 5 uri) = 5" by (simp only: scheme_length)
  then have len: "5 \<le> length uri" by simp
  have "(b = []) = (length uri = 5 \<or> uri ! 5 = CHR ''/'')"
  proof (cases "drop 5 uri")
    case Nil
    with len b show ?thesis by simp
  next
    case (Cons c cs)
    then have "length uri > 5" by (cases "length uri > 5") auto
    moreover from Cons have "uri ! 5 = c" by (metis Cons_nth_drop_Suc calculation list.inject)
    ultimately show ?thesis using b Cons by auto
  qed
  with sw b show ?thesis by simp
qed

theorem parse_s3_uri_bucket_witness:
  "parse_s3_uri ''s3://out/split'' = Inr (''out'', ''split'')
   \<and> ''out'' = takeWhile (\<lambda>c. c \<noteq> CHR ''/'') (drop 5 ''s3://out/split'')
   \<and> (''out'' = [] \<longleftrightarrow> length ''s3://out/split'' = 5 \<or> ''s3://out/split'' ! 5 = CHR ''/'')"
proof -
  have h: "parse_s3_uri ''s3://out/split'' = Inr (''out'', ''split'')"
    by (simp add: parse_s3_uri_def startswith_def split1_def)
  from parse_s3_uri_bucket [OF h] h show ?thesis by simp
qed

section \<open>Flags\<close>







section \<open>Names\<close>





section \<open>The job as a whole\<close>

lemma is_row_object_row_object: "is_row_object (row_object ob op nm d)"
  by (simp add: is_row_object_def row_object_def)

lemma rows_all_row_objects:
  "list_all is_row_object (map (\<lambda>(nm, d). row_object ob op nm d) xs)"
  by (induction xs) (auto simp: is_row_object_row_object)

lemma filter_rows_append:
  "list_all is_row_object xs \<Longrightarrow> list_all (\<lambda>p. \<not> is_row_object p) ys \<Longrightarrow>
   filter is_row_object (xs @ ys) = xs"
  by (induction xs) (auto simp: list_all_iff filter_empty_conv)

lemma main_bad_input:
  "parse_s3_uri (input_s3_uri A) = Inl e \<Longrightarrow> main E A = (Raised e, [])"
  by (simp add: main_def)

lemma main_bad_output:
  "parse_s3_uri (input_s3_uri A) = Inr (ib, ik) \<Longrightarrow>
   parse_s3_uri (output_s3_uri A) = Inl e \<Longrightarrow> main E A = (Raised e, [])"
  by (simp add: main_def)

lemma main_unreadable:
  "parse_s3_uri (input_s3_uri A) = Inr (ib, ik) \<Longrightarrow>
   parse_s3_uri (output_s3_uri A) = Inr (ob, op0) \<Longrightarrow>
   get_object E ib ik = Inl e \<Longrightarrow>
   main E A = (Raised e,
     if str2bool (write_run_log A) \<and> \<not> put_fails E 0
     then [failed_put A ob (normalize_prefix op0) e init_state] else [])"
  by (simp add: main_def split_body_def put_object_def init_state_def)

lemma main_no_header:
  "parse_s3_uri (input_s3_uri A) = Inr (ib, ik) \<Longrightarrow>
   parse_s3_uri (output_s3_uri A) = Inr (ob, op0) \<Longrightarrow>
   get_object E ib ik = Inr src \<Longrightarrow>
   header src = None \<or> header src = Some [] \<Longrightarrow>
   main E A = (Raised (RuntimeError
       ''No CSV header/fieldnames detected. Ensure the input has a header row.''),
     if str2bool (write_run_log A) \<and> \<not> put_fails E 0
     then [failed_put A ob (normalize_prefix op0) (RuntimeError
       ''No CSV header/fieldnames detected. Ensure the input has a header row.'')
       (init_state\<lparr>fieldnames := header src\<rparr>)] else [])"
  by (auto simp: main_def split_body_def put_object_def init_state_def Let_def)

lemma main_run:
  assumes pin: "parse_s3_uri (input_s3_uri A) = Inr (ib, ik)"
    and pout: "parse_s3_uri (output_s3_uri A) = Inr (ob, op0)"
    and src: "get_object E ib ik = Inr src"
    and hd: "header src = Some fns" "fns \<noteq> []"
  shows "\<exists>st1 err n ds rest.
       n \<le> length (records src) \<and> length ds = n
     \<and> map (row_bytes E (str2bool (include_header A)) fns) (take n (records src)) = map Inr ds
     \<and> objects st1 = map (\<lambda>(nm, d). row_object ob (normalize_prefix op0) nm d)
          (zip (take n (registry_names Map.empty
                 (base_names (id_column A) 1 (records src)))) ds)
     \<and> manifest st1 = map (\<lambda>(i, raw, nm). file_entry ob (normalize_prefix op0) i raw nm)
          (zip [1..<1 + n] (zip (raw_names (id_column A) 1 (records src))
             (registry_names Map.empty (base_names (id_column A) 1 (records src)))))
     \<and> fieldnames st1 = Some fns
     \<and> (\<forall>i<n. \<not> put_fails E i)
     \<and> (err = None \<longrightarrow> n = length (records src) \<and> total st1 = n \<and> calls st1 = n)
     \<and> (err \<noteq> None \<longrightarrow>
           (n = length (records src) \<and> err = broken src \<and> total st1 = n)
           \<or> (n < length (records src) \<and> total st1 = n + 1
               \<and> (row_bytes E (str2bool (include_header A)) fns (records src ! n) = Inl (the err)
                   \<or> put_fails E n)))
     \<and> snd (main E A) = objects st1 @ rest
     \<and> list_all (\<lambda>p. \<not> is_row_object p) rest
     \<and> (err \<noteq> None \<longrightarrow> fst (main E A) = Raised (the err) \<and>
           rest = (if str2bool (write_run_log A) \<and> \<not> put_fails E (calls st1)
                   then [failed_put A ob (normalize_prefix op0) (the err) st1] else []))
     \<and> (fst (main E A) = Succeeded \<longrightarrow> err = None \<and>
           rest = manifest_put A ob (normalize_prefix op0) st1 #
             (if str2bool (write_run_log A)
              then [summary_put A ob (normalize_prefix op0) st1] else []))"
proof -
  obtain st1 err where loop:
    "rows_loop E A (str2bool (include_header A)) ob (normalize_prefix op0) fns
        (broken src) 1 (records src) (init_state\<lparr>fieldnames := Some fns\<rparr>) = (st1, err)"
    by (cases "rows_loop E A (str2bool (include_header A)) ob (normalize_prefix op0) fns
        (broken src) 1 (records src) (init_state\<lparr>fieldnames := Some fns\<rparr>)")
  from rows_loop_shape [OF loop] obtain n ds where sh:
    "n \<le> length (records src)" "length ds = n"
    "map (row_bytes E (str2bool (include_header A)) fns) (take n (records src)) = map Inr ds"
    "objects st1 = map (\<lambda>(nm, d). row_object ob (normalize_prefix op0) nm d)
          (zip (take n (registry_names Map.empty
                 (base_names (id_column A) 1 (records src)))) ds)"
    "manifest st1 = map (\<lambda>(i, raw, nm). file_entry ob (normalize_prefix op0) i raw nm)
          (zip [1..<1 + n] (zip (raw_names (id_column A) 1 (records src))
             (registry_names Map.empty (base_names (id_column A) 1 (records src)))))"
    "fieldnames st1 = Some fns"
    "\<forall>i<n. \<not> put_fails E i"
    "err = None \<longrightarrow> n = length (records src) \<and> total st1 = n \<and> calls st1 = n"
    "err \<noteq> None \<longrightarrow>
           (n = length (records src) \<and> err = broken src \<and> total st1 = n)
           \<or> (n < length (records src) \<and> total st1 = n + 1
               \<and> (row_bytes E (str2bool (include_header A)) fns (records src ! n) = Inl (the err)
                   \<or> put_fails E n))"
    by (auto simp: init_state_def)
  from main_cases [OF pin pout src hd loop] obtain rest where mc:
    "snd (main E A) = objects st1 @ rest"
    "list_all (\<lambda>p. \<not> is_row_object p) rest"
    "err \<noteq> None \<longrightarrow> fst (main E A) = Raised (the err) \<and>
           rest = (if str2bool (write_run_log A) \<and> \<not> put_fails E (calls st1)
                   then [failed_put A ob (normalize_prefix op0) (the err) st1] else [])"
    "fst (main E A) = Succeeded \<longrightarrow> err = None \<and>
           rest = manifest_put A ob (normalize_prefix op0) st1 #
             (if str2bool (write_run_log A)
              then [summary_put A ob (normalize_prefix op0) st1] else [])"
    by blast
  show ?thesis
    apply (rule exI [of _ st1], rule exI [of _ err], rule exI [of _ n], rule exI [of _ ds],
           rule exI [of _ rest])
    apply (intro conjI)
    using sh mc by blast+
qed

lemma manifest_indices:
  "length raws = n \<Longrightarrow> length names = n \<Longrightarrow>
   map row_index (map (\<lambda>(i, raw, nm). file_entry ob op i raw nm)
     (zip [k..<k + n] (zip raws names))) = [k..<k + n]"
  by (rule nth_equalityI) (simp_all add: file_entry_def)

lemma manifest_sources:
  "length raws = n \<Longrightarrow> length names = n \<Longrightarrow>
   map source_identifier (map (\<lambda>(i, raw, nm). file_entry ob op i raw nm)
     (zip [k..<k + n] (zip raws names))) = raws"
  by (rule nth_equalityI) (simp_all add: file_entry_def)

lemma manifest_uris:
  "length raws = n \<Longrightarrow> length names = n \<Longrightarrow>
   map s3_uri (map (\<lambda>(i, raw, nm). file_entry ob op i raw nm)
     (zip [k..<k + n] (zip raws names))) =
   map (\<lambda>nm. ''s3://'' @ ob @ ''/'' @ op @ nm @ ''.csv'') names"
  by (rule nth_equalityI) (simp_all add: file_entry_def)

lemma objects_uris:
  "length names = length ds \<Longrightarrow>
   map (\<lambda>p. ''s3://'' @ bucket p @ ''/'' @ key p)
     (map (\<lambda>(nm, d). row_object ob op nm d) (zip names ds)) =
   map (\<lambda>nm. ''s3://'' @ ob @ ''/'' @ op @ nm @ ''.csv'') names"
  by (rule nth_equalityI) (simp_all add: row_object_def)

lemma not_row_manifest: "\<not> is_row_object (manifest_put A ob op st)"
  by (simp add: is_row_object_def manifest_put_def)

lemma not_row_summary: "\<not> is_row_object (summary_put A ob op st)"
  by (simp add: is_row_object_def summary_put_def)

lemma is_manifest_manifest: "is_manifest_object (manifest_put A ob op st)"
  by (simp add: is_manifest_object_def manifest_put_def)

lemma not_manifest_summary: "\<not> is_manifest_object (summary_put A ob op st)"
  by (simp add: is_manifest_object_def summary_put_def)

lemma not_manifest_rows:
  "filter is_manifest_object (map (\<lambda>(nm, d). row_object ob op nm d) xs) = []"
  by (induction xs) (auto simp: is_manifest_object_def row_object_def)

section \<open>A run that succeeds\<close>

text \<open>
  The writes of a successful run on an input with \<open>k\<close> data rows: \<open>k\<close> per-row writes, first
  and in the order of the rows, and one manifest write right after them; the manifest's
  \<open>total_rows\<close> is \<open>k\<close>, and its \<open>files\<close> list has \<open>k\<close> records, with row indices 1 to \<open>k\<close>, the
  raw names of the rows and the locators of the per-row writes, in the order the rows
  were read. This counts calls of \<open>put_object\<close>, not the objects that exist afterwards.
\<close>

lemma successful_run_writes:
  assumes run: "main E A = (Succeeded, objs)"
    and pin: "parse_s3_uri (input_s3_uri A) = Inr (ib, ik)"
    and src: "get_object E ib ik = Inr src"
  shows "length (filter is_row_object objs) = length (records src)
    \<and> take (length (records src)) objs = filter is_row_object objs
    \<and> length (filter is_manifest_object objs) = 1
    \<and> (\<exists>md. content (objs ! length (records src)) = ManifestJson md
         \<and> m_total_rows md = length (records src)
         \<and> length (m_files md) = length (records src)
         \<and> map row_index (m_files md) = [1..<Suc (length (records src))]
         \<and> map source_identifier (m_files md) = raw_names (id_column A) 1 (records src)
         \<and> map s3_uri (m_files md) =
             map (\<lambda>p. ''s3://'' @ bucket p @ ''/'' @ key p) (filter is_row_object objs))"
proof -
  let ?k = "length (records src)"
  obtain ob op0 where pout: "parse_s3_uri (output_s3_uri A) = Inr (ob, op0)"
  proof (cases "parse_s3_uri (output_s3_uri A)")
    case (Inl e)
    from main_bad_output [OF pin Inl] run show ?thesis by simp
  next
    case (Inr p)
    with that show ?thesis by (cases p) auto
  qed
  obtain fns where hd: "header src = Some fns" "fns \<noteq> []"
  proof (cases "header src = None \<or> header src = Some []")
    case True
    from main_no_header [OF pin pout src True] run show ?thesis by simp
  next
    case False
    with that show ?thesis by auto
  qed
  let ?op = "normalize_prefix op0"
  let ?names = "registry_names Map.empty (base_names (id_column A) 1 (records src))"
  let ?raws = "raw_names (id_column A) 1 (records src)"
  from main_run [OF pin pout src hd] run obtain st1 ds where
    len: "length ds = ?k" and
    objs1: "objects st1 = map (\<lambda>(nm, d). row_object ob ?op nm d) (zip ?names ds)" and
    man: "manifest st1 = map (\<lambda>(i, raw, nm). file_entry ob ?op i raw nm)
          (zip [1..<1 + ?k] (zip ?raws ?names))" and
    tot: "total st1 = ?k" and
    objs: "objs = objects st1 @ manifest_put A ob ?op st1 #
             (if str2bool (write_run_log A) then [summary_put A ob ?op st1] else [])"
    by auto
  have l1: "length (objects st1) = ?k" by (simp add: objs1 len)
  have rows: "list_all is_row_object (objects st1)"
    unfolding objs1 by (rule rows_all_row_objects)
  have rest: "list_all (\<lambda>p. \<not> is_row_object p) (manifest_put A ob ?op st1 #
             (if str2bool (write_run_log A) then [summary_put A ob ?op st1] else []))"
    by (simp add: not_row_manifest not_row_summary)
  have f: "filter is_row_object objs = objects st1"
    unfolding objs using rows rest by (rule filter_rows_append)
  have t: "take ?k objs = objects st1" by (simp add: objs l1)
  have m1: "length (filter is_manifest_object objs) = 1"
    by (simp add: objs objs1 not_manifest_rows is_manifest_manifest not_manifest_summary)
  have c: "content (objs ! ?k) = ManifestJson
        \<lparr>m_input = input_s3_uri A, m_output_prefix = ''s3://'' @ ob @ ''/'' @ ?op,
         m_files = manifest st1, m_total_rows = total st1, m_id_column = id_column A\<rparr>"
    using l1 by (simp add: objs nth_append manifest_put_def)
  have lr: "length ?raws = ?k" and ln: "length ?names = ?k" by simp_all
  have i: "map row_index (manifest st1) = [1..<Suc ?k]"
    unfolding man using manifest_indices [OF lr ln, of ob ?op 1] by simp
  have s: "map source_identifier (manifest st1) = ?raws"
    unfolding man by (rule manifest_sources [OF lr ln])
  have u: "map s3_uri (manifest st1) =
      map (\<lambda>p. ''s3://'' @ bucket p @ ''/'' @ key p) (objects st1)"
    unfolding man objs1 using manifest_uris [OF lr ln, of ob ?op 1] objects_uris [of ?names ds ob ?op]
    by (simp add: len)
  have ml: "length (manifest st1) = ?k"
    using arg_cong [OF i, of length] by (simp del: upt_Suc)
  show ?thesis
    apply (intro conjI)
    subgoal by (simp add: f l1)
    subgoal by (simp add: f t)
    subgoal by (rule m1)
    subgoal
      apply (rule exI [of _ "\<lparr>m_input = input_s3_uri A, m_output_prefix = ''s3://'' @ ob @ ''/'' @ ?op,
         m_files = manifest st1, m_total_rows = total st1, m_id_column = id_column A\<rparr>"])
      using c tot ml i s u f by simp
    done
qed

lemma successful_run_writes_example:
  "main (sample_env (sample_source [sample_row ''a'', sample_row ''b'']) (\<lambda>n. False))
        (sample_args ''true'' ''true'')
   = (Succeeded, snd (main (sample_env (sample_source [sample_row ''a'', sample_row ''b''])
        (\<lambda>n. False)) (sample_args ''true'' ''true'')))
   \<and> length (filter is_row_object (snd (main (sample_env (sample_source
        [sample_row ''a'', sample_row ''b'']) (\<lambda>n. False)) (sample_args ''true'' ''true'')))) = 2
   \<and> take 2 (snd (main (sample_env (sample_source
        [sample_row ''a'', sample_row ''b'']) (\<lambda>n. False)) (sample_args ''true'' ''true'')))
      = filter is_row_object (snd (main (sample_env (sample_source
        [sample_row ''a'', sample_row ''b'']) (\<lambda>n. False)) (sample_args ''true'' ''true'')))
   \<and> length (filter is_manifest_object (snd (main (sample_env (sample_source
        [sample_row ''a'', sample_row ''b'']) (\<lambda>n. False)) (sample_args ''true'' ''true'')))) = 1
   \<and> (\<exists>md. content (snd (main (sample_env (sample_source
        [sample_row ''a'', sample_row ''b'']) (\<lambda>n. False)) (sample_args ''true'' ''true'')) ! 2)
          = ManifestJson md
        \<and> m_total_rows md = 2 \<and> length (m_files md) = 2
        \<and> map row_index (m_files md) = [1, 2]
        \<and> map source_identifier (m_files md) = [''a'', ''b'']
        \<and> map s3_uri (m_files md) = map (\<lambda>p. ''s3://'' @ bucket p @ ''/'' @ key p)
             (filter is_row_object (snd (main (sample_env (sample_source
        [sample_row ''a'', sample_row ''b'']) (\<lambda>n. False)) (sample_args ''true'' ''true'')))))"
proof -
  let ?E = "sample_env (sample_source [sample_row ''a'', sample_row ''b'']) (\<lambda>n. False)"
  let ?A = "sample_args ''true'' ''true''"
  have "fst (main ?E ?A) = Succeeded" by code_simp
  then have h1: "main ?E ?A = (Succeeded, snd (main ?E ?A))" by (simp add: prod_eq_iff)
  have h2: "parse_s3_uri (input_s3_uri ?A) = Inr (''in'', ''data.csv'')" by code_simp
  have h3: "get_object ?E ''in'' ''data.csv'' = Inr (sample_source [sample_row ''a'', sample_row ''b''])"
    by (simp add: sample_env_def)
  have k: "length (records (sample_source [sample_row ''a'', sample_row ''b''])) = 2"
    by (simp add: sample_source_def)
  have r: "raw_names (id_column ?A) 1 (records (sample_source [sample_row ''a'', sample_row ''b'']))
      = [''a'', ''b'']"
    by code_simp
  have u: "[1..<Suc 2] = [1, 2]" by code_simp
  note t = successful_run_writes [OF h1 h2 h3, unfolded k r u]
  from h1 t show ?thesis by (rule conjI)
qed

text \<open>
  The store after a successful run holds every write, so \<open>k\<close> per-row objects and the
  manifest, when the keys of the per-row writes are pairwise distinct.
\<close>

lemma overwrite_fresh:
  "(bucket p, key p) \<notin> set (map (\<lambda>q. (bucket q, key q)) st) \<Longrightarrow> overwrite p st = st @ [p]"
  by (force simp: overwrite_def filter_id_conv image_iff)

lemma foldl_overwrite_distinct:
  "distinct (map (\<lambda>q. (bucket q, key q)) (acc @ ps)) \<Longrightarrow>
   foldl (\<lambda>st p. overwrite p st) acc ps = acc @ ps"
proof (induction ps arbitrary: acc)
  case Nil
  show ?case by simp
next
  case (Cons p ps)
  from Cons.prems have fresh: "(bucket p, key p) \<notin> set (map (\<lambda>q. (bucket q, key q)) acc)"
    by auto
  from Cons.prems have "distinct (map (\<lambda>q. (bucket q, key q)) ((acc @ [p]) @ ps))" by simp
  from Cons.IH [OF this] overwrite_fresh [OF fresh] show ?case by simp
qed

lemma stored_distinct:
  "distinct (map (\<lambda>q. (bucket q, key q)) ps) \<Longrightarrow> stored ps = ps"
  using foldl_overwrite_distinct [of "[]" ps] by (simp add: stored_def)

lemma csv_not_manifest: "nm @ ''.csv'' \<noteq> ''_MANIFEST.json''"
proof
  assume "nm @ ''.csv'' = ''_MANIFEST.json''"
  then have "last (nm @ ''.csv'') = last ''_MANIFEST.json''" by (rule arg_cong)
  then show False by simp
qed

lemma csv_not_summary: "nm @ ''.csv'' \<noteq> ''RUN_SUMMARY.json''"
proof
  assume "nm @ ''.csv'' = ''RUN_SUMMARY.json''"
  then have "last (nm @ ''.csv'') = last ''RUN_SUMMARY.json''" by (rule arg_cong)
  then show False by simp
qed

lemma distinct_keys_locations:
  "distinct (map key ps) \<Longrightarrow> distinct (map (\<lambda>q. (bucket q, key q)) ps)"
  by (induction ps) auto

lemma row_keys_not_json:
  "(b, op @ ''_MANIFEST.json'') \<notin>
     set (map (\<lambda>q. (bucket q, key q)) (map (\<lambda>(nm, d). row_object ob op nm d) xs))"
  "(b, op @ ''RUN_SUMMARY.json'') \<notin>
     set (map (\<lambda>q. (bucket q, key q)) (map (\<lambda>(nm, d). row_object ob op nm d) xs))"
  by (auto simp: row_object_def csv_not_manifest csv_not_summary)

lemma successful_run_store:
  assumes run: "main E A = (Succeeded, objs)"
    and pin: "parse_s3_uri (input_s3_uri A) = Inr (ib, ik)"
    and src: "get_object E ib ik = Inr src"
    and names: "distinct (map key (filter is_row_object objs))"
  shows "stored objs = objs"
proof -
  obtain ob op0 where pout: "parse_s3_uri (output_s3_uri A) = Inr (ob, op0)"
  proof (cases "parse_s3_uri (output_s3_uri A)")
    case (Inl e)
    from main_bad_output [OF pin Inl] run show ?thesis by simp
  next
    case (Inr p)
    with that show ?thesis by (cases p) auto
  qed
  obtain fns where hd: "header src = Some fns" "fns \<noteq> []"
  proof (cases "header src = None \<or> header src = Some []")
    case True
    from main_no_header [OF pin pout src True] run show ?thesis by simp
  next
    case False
    with that show ?thesis by auto
  qed
  let ?op = "normalize_prefix op0"
  from main_run [OF pin pout src hd] run obtain st1 xs where
    objs1: "objects st1 = map (\<lambda>(nm, d). row_object ob ?op nm d) xs" and
    objs: "objs = objects st1 @ manifest_put A ob ?op st1 #
             (if str2bool (write_run_log A) then [summary_put A ob ?op st1] else [])"
    by auto
  have rows: "list_all is_row_object (objects st1)"
    unfolding objs1 by (rule rows_all_row_objects)
  have rest: "list_all (\<lambda>p. \<not> is_row_object p) (manifest_put A ob ?op st1 #
             (if str2bool (write_run_log A) then [summary_put A ob ?op st1] else []))"
    by (simp add: not_row_manifest not_row_summary)
  have f: "filter is_row_object objs = objects st1"
    unfolding objs using rows rest by (rule filter_rows_append)
  from names have d1: "distinct (map (\<lambda>q. (bucket q, key q)) (objects st1))"
    unfolding f by (rule distinct_keys_locations)
  have "distinct (map (\<lambda>q. (bucket q, key q)) objs)"
    unfolding objs using d1 row_keys_not_json [of ob ?op ob xs]
    by (simp add: objs1 manifest_put_def summary_put_def)
  then show ?thesis by (rule stored_distinct)
qed

text \<open>
  Claim C3 fails on the code, by the defect of claim C1. The identifiers \<open>a\<close>, \<open>a\<close>, \<open>a-1\<close>
  give the final names \<open>a\<close>, \<open>a-1\<close>, \<open>a-1\<close>. The run succeeds, and its manifest has \<open>total_rows\<close>
  3 and three file records, but the third write replaces the object of the second: the
  store holds two per-row objects, those of rows 1 and 3, not three.
\<close>

theorem successful_run_overwrites:
  "fst (main (sample_env (sample_source [sample_row ''a'', sample_row ''a'', sample_row ''a-1''])
         never_fails) (sample_args ''true'' ''true'')) = Succeeded
   \<and> map m_total_rows (manifest_docs (snd (main
        (sample_env (sample_source [sample_row ''a'', sample_row ''a'', sample_row ''a-1''])
         never_fails) (sample_args ''true'' ''true'')))) = [3]
   \<and> map (length \<circ> m_files) (manifest_docs (snd (main
        (sample_env (sample_source [sample_row ''a'', sample_row ''a'', sample_row ''a-1''])
         never_fails) (sample_args ''true'' ''true'')))) = [3]
   \<and> map key (filter is_row_object (stored (snd (main
        (sample_env (sample_source [sample_row ''a'', sample_row ''a'', sample_row ''a-1''])
         never_fails) (sample_args ''true'' ''true'')))))
     = [''split/a.csv'', ''split/a-1.csv'']
   \<and> map csv_body (filter is_row_object (stored (snd (main
        (sample_env (sample_source [sample_row ''a'', sample_row ''a'', sample_row ''a-1''])
         never_fails) (sample_args ''true'' ''true'')))))
     = [Some (''source_identifier,amount'' @ [CHR 0x0A] @ ''a,7'' @ [CHR 0x0A]),
        Some (''source_identifier,amount'' @ [CHR 0x0A] @ ''a-1,7'' @ [CHR 0x0A])]"
  by code_simp

section \<open>A missing header\<close>

lemma failure_docs_failed_put:
  "failure_docs [failed_put A ob op e st] =
     [\<lparr>f_status = ''FAILED'', f_error = error_text e, f_input = input_s3_uri A,
       f_output_prefix = ''s3://'' @ ob @ ''/'' @ op, f_processed_rows = total st,
       f_id_column = id_column A, f_fieldnames = fieldnames st\<rparr>]"
  by (simp add: failure_docs_def failed_put_def)

lemma failure_docs_nil: "failure_docs [] = []"
  by (simp add: failure_docs_def)

lemma not_row_failed: "\<not> is_row_object (failed_put A ob op e st)"
  by (simp add: is_row_object_def failed_put_def)

lemma not_manifest_failed: "\<not> is_manifest_object (failed_put A ob op e st)"
  by (simp add: is_manifest_object_def failed_put_def)

text \<open>
  Claim C4. When the input has no header (no field names, or an empty list of them), the
  job fails before the row loop: the outcome is the missing-header error (or the error of
  an invalid output locator, raised even earlier), no per-row object and no manifest is
  written, and a failure report, if one is written, counts zero processed rows.
\<close>

theorem missing_header_aborts:
  assumes pin: "parse_s3_uri (input_s3_uri A) = Inr (ib, ik)"
    and src: "get_object E ib ik = Inr src"
    and hd: "header src = None \<or> header src = Some []"
  shows "fst (main E A) =
       (case parse_s3_uri (output_s3_uri A) of
          Inl e \<Rightarrow> Raised e
        | Inr _ \<Rightarrow> Raised (RuntimeError
            ''No CSV header/fieldnames detected. Ensure the input has a header row.''))
     \<and> filter is_row_object (snd (main E A)) = []
     \<and> filter is_manifest_object (snd (main E A)) = []
     \<and> list_all (\<lambda>fd. f_processed_rows fd = 0) (failure_docs (snd (main E A)))"
proof (cases "parse_s3_uri (output_s3_uri A)")
  case (Inl e)
  from main_bad_output [OF pin Inl] Inl show ?thesis
    by (simp add: failure_docs_nil)
next
  case (Inr p)
  obtain ob op0 where p: "p = (ob, op0)" by (cases p)
  from main_no_header [OF pin Inr [unfolded p] src hd] Inr show ?thesis
    by (simp add: failure_docs_failed_put failure_docs_nil not_row_failed
          not_manifest_failed init_state_def)
qed

theorem missing_header_aborts_witness:
  "fst (main (sample_env \<lparr>header = None, records = [], broken = None\<rparr> (\<lambda>n. False))
        (sample_args ''true'' ''true''))
     = Raised (RuntimeError
            ''No CSV header/fieldnames detected. Ensure the input has a header row.'')
   \<and> filter is_row_object (snd (main (sample_env \<lparr>header = None, records = [], broken = None\<rparr>
        (\<lambda>n. False)) (sample_args ''true'' ''true''))) = []
   \<and> map f_processed_rows (failure_docs (snd (main (sample_env
        \<lparr>header = None, records = [], broken = None\<rparr> (\<lambda>n. False))
        (sample_args ''true'' ''true'')))) = [0]
   \<and> filter is_row_object (snd (main (sample_env
        \<lparr>header = Some [], records = [sample_row ''a''], broken = None\<rparr> (\<lambda>n. False))
        (sample_args ''true'' ''true''))) = []"
proof -
  let ?A = "sample_args ''true'' ''true''"
  let ?E = "sample_env \<lparr>header = None, records = [], broken = None\<rparr> (\<lambda>n. False)"
  let ?F = "sample_env \<lparr>header = Some [], records = [sample_row ''a''], broken = None\<rparr>
     (\<lambda>n. False)"
  have h1: "parse_s3_uri (input_s3_uri ?A) = Inr (''in'', ''data.csv'')" by code_simp
  have po: "parse_s3_uri (output_s3_uri ?A) = Inr (''out'', ''split'')" by code_simp
  have e2: "get_object ?E ''in'' ''data.csv'' = Inr \<lparr>header = None, records = [], broken = None\<rparr>"
    by (simp add: sample_env_def)
  have f2: "get_object ?F ''in'' ''data.csv''
      = Inr \<lparr>header = Some [], records = [sample_row ''a''], broken = None\<rparr>"
    by (simp add: sample_env_def)
  have e3: "header \<lparr>header = None, records = [], broken = None\<rparr> = None
      \<or> header \<lparr>header = None, records = [], broken = None\<rparr> = Some []" by simp
  have f3: "header \<lparr>header = Some [], records = [sample_row ''a''], broken = None\<rparr> = None
      \<or> header \<lparr>header = Some [], records = [sample_row ''a''], broken = None\<rparr> = Some []"
    by simp
  have d: "map f_processed_rows (failure_docs (snd (main ?E ?A))) = [0]" by code_simp
  note a = missing_header_aborts [OF h1 e2 e3, unfolded po]
  note b = missing_header_aborts [OF h1 f2 f3]
  from a have a1: "fst (main ?E ?A) = Raised (RuntimeError
            ''No CSV header/fieldnames detected. Ensure the input has a header row.'')"
    by simp
  from a have a2: "filter is_row_object (snd (main ?E ?A)) = []" by (elim conjE)
  from b have b2: "filter is_row_object (snd (main ?F ?A)) = []" by (elim conjE)
  show ?thesis by (intro conjI a1 a2 d b2)
qed

section \<open>The per-row objects of any run\<close>

lemma main_row_objects:
  assumes pin: "parse_s3_uri (input_s3_uri A) = Inr (ib, ik)"
    and pout: "parse_s3_uri (output_s3_uri A) = Inr (ob, op0)"
    and src: "get_object E ib ik = Inr src"
  shows "\<exists>n ds. n \<le> length (records src) \<and> length ds = n
     \<and> filter is_row_object (snd (main E A)) =
         map (\<lambda>(nm, d). row_object ob (normalize_prefix op0) nm d)
          (zip (take n (registry_names Map.empty
                 (base_names (id_column A) 1 (records src)))) ds)
     \<and> (\<forall>fns. header src = Some fns \<longrightarrow>
           map (row_bytes E (str2bool (include_header A)) fns) (take n (records src))
             = map Inr ds)
     \<and> (fst (main E A) = Succeeded \<longrightarrow> n = length (records src))"
proof (cases "header src = None \<or> header src = Some []")
  case True
  from main_no_header [OF pin pout src True]
  have "filter is_row_object (snd (main E A)) = []" "fst (main E A) \<noteq> Succeeded"
    by (simp_all add: not_row_failed)
  then show ?thesis
    by (intro exI [of _ 0] exI [of _ "[]"]) simp
next
  case False
  then obtain fns where hd: "header src = Some fns" "fns \<noteq> []" by auto
  from main_run [OF pin pout src hd] obtain st1 err n ds rest where
    n: "n \<le> length (records src)" "length ds = n" and
    by1: "map (row_bytes E (str2bool (include_header A)) fns) (take n (records src)) = map Inr ds"
    and ob1: "objects st1 = map (\<lambda>(nm, d). row_object ob (normalize_prefix op0) nm d)
          (zip (take n (registry_names Map.empty
                 (base_names (id_column A) 1 (records src)))) ds)"
    and ok: "err = None \<longrightarrow> n = length (records src) \<and> total st1 = n \<and> calls st1 = n"
    and sn: "snd (main E A) = objects st1 @ rest"
    and nr: "list_all (\<lambda>p. \<not> is_row_object p) rest"
    and su: "fst (main E A) = Succeeded \<longrightarrow> err = None \<and>
           rest = manifest_put A ob (normalize_prefix op0) st1 #
             (if str2bool (write_run_log A)
              then [summary_put A ob (normalize_prefix op0) st1] else [])"
    by blast
  have "list_all is_row_object (objects st1)"
    unfolding ob1 by (rule rows_all_row_objects)
  then have f: "filter is_row_object (snd (main E A)) = objects st1"
    unfolding sn using nr by (rule filter_rows_append)
  show ?thesis
    apply (rule exI [of _ n], rule exI [of _ ds])
    using n by1 ob1 ok su f hd by simp
qed

lemma keys_of_rows:
  "length names = length ds \<Longrightarrow>
   map key (map (\<lambda>(nm, d). row_object ob op nm d) (zip names ds)) =
   map (\<lambda>nm. op @ nm @ ''.csv'') names"
  by (rule nth_equalityI) (simp_all add: row_object_def)

lemma bodies_of_rows:
  "length names = length ds \<Longrightarrow>
   map csv_body (map (\<lambda>(nm, d). row_object ob op nm d) (zip names ds)) = map Some ds"
  by (rule nth_equalityI) (simp_all add: row_object_def csv_body_def)

lemma take_registry_names:
  "n \<le> length bs \<Longrightarrow>
   take n (registry_names Map.empty bs) = map (collision_name bs) [0..<n]"
  by (rule nth_equalityI) (simp_all add: registry_names_empty_nth)

text \<open>
  Claim C6. In every run, the per-row objects are written under the keys that the
  occurrence rule gives, in the order of the rows: the row at position \<open>i\<close> (from 0), with
  base name \<open>b\<close>, gets the final name \<open>b\<close> when no earlier row has the base name \<open>b\<close>, and
  \<open>b-n\<close> when \<open>n > 0\<close> earlier rows have it (\<open>collision_name\<close>, which states the rule in the
  words of the specification). A run that succeeds writes an object for every row.
\<close>

theorem collision_names_in_order:
  assumes pin: "parse_s3_uri (input_s3_uri A) = Inr (ib, ik)"
    and pout: "parse_s3_uri (output_s3_uri A) = Inr (ob, op0)"
    and src: "get_object E ib ik = Inr src"
  shows "map key (filter is_row_object (snd (main E A))) =
       map (\<lambda>i. normalize_prefix op0
                 @ collision_name (base_names (id_column A) 1 (records src)) i @ ''.csv'')
           [0..<length (filter is_row_object (snd (main E A)))]
     \<and> length (filter is_row_object (snd (main E A))) \<le> length (records src)
     \<and> (fst (main E A) = Succeeded \<longrightarrow>
           length (filter is_row_object (snd (main E A))) = length (records src))"
proof -
  let ?bs = "base_names (id_column A) 1 (records src)"
  let ?op = "normalize_prefix op0"
  from main_row_objects [OF pin pout src] obtain n ds where
    n: "n \<le> length (records src)" "length ds = n" and
    f: "filter is_row_object (snd (main E A)) =
         map (\<lambda>(nm, d). row_object ob ?op nm d) (zip (take n (registry_names Map.empty ?bs)) ds)"
    and su: "fst (main E A) = Succeeded \<longrightarrow> n = length (records src)"
    by blast
  have lt: "length (take n (registry_names Map.empty ?bs)) = length ds"
    using n by simp
  have len: "length (filter is_row_object (snd (main E A))) = n"
    unfolding f using lt n by simp
  have "map key (filter is_row_object (snd (main E A))) =
      map (\<lambda>nm. ?op @ nm @ ''.csv'') (take n (registry_names Map.empty ?bs))"
    unfolding f by (rule keys_of_rows [OF lt])
  also have "take n (registry_names Map.empty ?bs) = map (collision_name ?bs) [0..<n]"
    using n by (intro take_registry_names) simp
  finally have k: "map key (filter is_row_object (snd (main E A))) =
      map (\<lambda>i. ?op @ collision_name ?bs i @ ''.csv'') [0..<n]"
    by (simp add: comp_def)
  show ?thesis
    using k n su by (simp add: len)
qed

theorem collision_names_in_order_witness:
  "map key (filter is_row_object (snd (main
      (sample_env (sample_source [sample_row ''a'', sample_row ''a'', sample_row ''a''])
        (\<lambda>n. False)) (sample_args ''true'' ''true''))))
   = [''split/a.csv'', ''split/a-1.csv'', ''split/a-2.csv'']"
proof -
  let ?rs = "[sample_row ''a'', sample_row ''a'', sample_row ''a'']"
  let ?E = "sample_env (sample_source ?rs) (\<lambda>n. False)"
  let ?A = "sample_args ''true'' ''true''"
  have h1: "parse_s3_uri (input_s3_uri ?A) = Inr (''in'', ''data.csv'')" by code_simp
  have h2: "parse_s3_uri (output_s3_uri ?A) = Inr (''out'', ''split'')" by code_simp
  have h3: "get_object ?E ''in'' ''data.csv'' = Inr (sample_source ?rs)"
    by (simp add: sample_env_def)
  have l: "length (filter is_row_object (snd (main ?E ?A))) = 3" by code_simp
  have u: "[0..<3] = [0, 1, 2]" by code_simp
  have c: "normalize_prefix ''split'' = ''split/''" by code_simp
  have b: "base_names (id_column ?A) 1 (records (sample_source ?rs)) = [''a'', ''a'', ''a'']"
    by code_simp
  have n0: "collision_name [''a'', ''a'', ''a''] 0 = ''a''" by code_simp
  have n1: "collision_name [''a'', ''a'', ''a''] (Suc 0) = ''a-1''" by code_simp
  have n2: "collision_name [''a'', ''a'', ''a''] 2 = ''a-2''" by code_simp
  from collision_names_in_order [OF h1 h2 h3, unfolded l u c b, THEN conjunct1]
  show ?thesis by (simp add: n0 n1 n2)
qed

section \<open>The content of a per-row object\<close>

lemma row_bytes_no_header:
  "row_bytes E False fns r = Inr d \<Longrightarrow> encode E (row_line E fns r) = Some d"
  by (auto simp: row_bytes_def row_text_def dict_to_list_def row_line_def
           split: sum.splits option.splits if_splits)

lemma rows_bytes_no_header:
  "map (row_bytes E False fns) xs = map Inr ds \<Longrightarrow>
   map (\<lambda>r. encode E (row_line E fns r)) xs = map Some ds"
proof (induction xs arbitrary: ds)
  case Nil
  then show ?case by simp
next
  case (Cons x xs)
  then obtain d ds' where ds: "ds = d # ds'" by (cases ds) auto
  with Cons.prems have "row_bytes E False fns x = Inr d"
    and "map (row_bytes E False fns) xs = map Inr ds'" by simp_all
  with Cons.IH [of ds'] ds show ?case by (simp add: row_bytes_no_header)
qed

text \<open>
  With the header flag false, the \<open>i\<close>-th per-row object holds the encoded text of the data
  row of the \<open>i\<close>-th input row followed by the line terminator, and nothing before it.
\<close>

lemma no_header_bodies:
  assumes nh: "\<not> str2bool (include_header A)"
    and pin: "parse_s3_uri (input_s3_uri A) = Inr (ib, ik)"
    and src: "get_object E ib ik = Inr src"
    and hd: "header src = Some fns"
  shows "map csv_body (filter is_row_object (snd (main E A))) =
       map (\<lambda>r. encode E (row_line E fns r))
         (take (length (filter is_row_object (snd (main E A)))) (records src))
     \<and> length (filter is_row_object (snd (main E A))) \<le> length (records src)"
proof (cases "parse_s3_uri (output_s3_uri A)")
  case (Inl e)
  from main_bad_output [OF pin Inl] show ?thesis by simp
next
  case (Inr p)
  obtain ob op0 where p: "p = (ob, op0)" by (cases p)
  let ?names = "registry_names Map.empty (base_names (id_column A) 1 (records src))"
  from main_row_objects [OF pin Inr [unfolded p] src] hd nh obtain n ds where
    n: "n \<le> length (records src)" "length ds = n" and
    f: "filter is_row_object (snd (main E A)) =
         map (\<lambda>(nm, d). row_object ob (normalize_prefix op0) nm d) (zip (take n ?names) ds)"
    and rb: "map (row_bytes E False fns) (take n (records src)) = map Inr ds"
    by auto
  have lt: "length (take n ?names) = length ds" using n by simp
  have len: "length (filter is_row_object (snd (main E A))) = n"
    unfolding f using lt n by simp
  have "map csv_body (filter is_row_object (snd (main E A))) = map Some ds"
    unfolding f by (rule bodies_of_rows [OF lt])
  also have "\<dots> = map (\<lambda>r. encode E (row_line E fns r)) (take n (records src))"
    using rows_bytes_no_header [OF rb] by simp
  finally show ?thesis using n by (simp add: len)
qed

lemma line_breaks_append: "line_breaks (xs @ ys) = line_breaks xs + line_breaks ys"
  by (induction xs) (simp_all add: line_breaks_def)

lemma line_breaks_doubled:
  "qc \<noteq> CHR 0x0A \<Longrightarrow>
   line_breaks (concat (map (\<lambda>c. if c = qc then [qc, qc] else [c]) f)) = line_breaks f"
  by (induction f) (simp_all add: line_breaks_def)

lemma line_breaks_single: "c \<noteq> CHR 0x0A \<Longrightarrow> line_breaks [c] = 0"
  by (simp add: line_breaks_def)

lemma line_breaks_csv_field:
  assumes "qc \<noteq> CHR 0x0A"
  shows "line_breaks (csv_field dl qc f) = line_breaks f"
proof (cases "list_ex (\<lambda>c. c = dl \<or> c = qc \<or> c = CHR 0x0A) f")
  case True
  then have "csv_field dl qc f =
      [qc] @ concat (map (\<lambda>c. if c = qc then [qc, qc] else [c]) f) @ [qc]"
    by (simp add: csv_field_def)
  then have "line_breaks (csv_field dl qc f) =
      line_breaks [qc] + (line_breaks (concat (map (\<lambda>c. if c = qc then [qc, qc] else [c]) f))
        + line_breaks [qc])"
    by (simp only: line_breaks_append)
  with assms show ?thesis
    by (simp add: line_breaks_single line_breaks_doubled)
next
  case False
  then show ?thesis by (simp add: csv_field_def)
qed

lemma line_breaks_join_with:
  "dl \<noteq> CHR 0x0A \<Longrightarrow> line_breaks (join_with dl xs) = sum_list (map line_breaks xs)"
  by (induction dl xs rule: join_with.induct)
     (simp_all add: line_breaks_append, simp_all add: line_breaks_def)

lemma csv_minimal_keeps_line_breaks:
  assumes "dl \<noteq> CHR 0x0A" and "qc \<noteq> CHR 0x0A"
  shows "keeps_line_breaks (csv_minimal dl qc)"
  unfolding keeps_line_breaks_def
proof
  fix cs
  show "line_breaks (csv_minimal dl qc cs) = sum_list (map line_breaks cs)"
  proof (cases "cs = [[]]")
    case True
    with assms show ?thesis by (simp add: csv_minimal_def line_breaks_def)
  next
    case False
    have "(\<lambda>x. line_breaks (csv_field dl qc x)) = line_breaks"
      using assms by (intro ext) (simp add: line_breaks_csv_field)
    with False assms show ?thesis
      by (simp add: csv_minimal_def line_breaks_join_with comp_def)
  qed
qed

lemma row_line_cells: "row_line E fns r = csv_line E (row_cells fns r) @ [CHR 0x0A]"
  by (simp add: row_line_def row_cells_def)

lemma line_breaks_zero: "(line_breaks c = 0) = (CHR 0x0A \<notin> set c)"
  by (induction c) (auto simp: line_breaks_def)

lemma sum_line_breaks_zero:
  "(sum_list (map line_breaks cs) = 0) = list_all (\<lambda>c. CHR 0x0A \<notin> set c) cs"
  by (induction cs) (simp_all add: line_breaks_zero)

text \<open>
  Claim C7, as stated, fails. A row whose second cell holds the two lines \<open>x\<close> and \<open>y\<close> is
  written, with the header flag false, as the record \<open>a,"x\<close> \<open>y"\<close> and its terminator: the
  content has two line feeds, so it is two lines, not one.
\<close>

theorem embedded_line_break_kept:
  "csv_body (hd (snd (main (csv_env (sample_source [memo_row])) (sample_args ''false'' ''true''))))
     = Some (''a,'' @ [CHR 0x22] @ ''x'' @ [CHR 0x0A] @ ''y'' @ [CHR 0x22, CHR 0x0A])
   \<and> line_breaks (''a,'' @ [CHR 0x22] @ ''x'' @ [CHR 0x0A] @ ''y'' @ [CHR 0x22, CHR 0x0A]) = 2"
  by code_simp

text \<open>
  Claim C7, amended. When the header flag is false, the content of every per-row object
  is the encoded text of exactly one record and nothing else: the data row of its input
  row, as the formatter writes its cells, followed by one line terminator; no header line
  stands before it. For a formatter that, like Python's, copies the line feeds of the
  cells and adds none, that text has one line feed more than the cells of the row have:
  it is a single line exactly when no cell of the row contains a line feed.
\<close>

theorem no_header_one_record:
  assumes nh: "\<not> str2bool (include_header A)"
    and pin: "parse_s3_uri (input_s3_uri A) = Inr (ib, ik)"
    and src: "get_object E ib ik = Inr src"
    and hd: "header src = Some fns"
    and fmt: "keeps_line_breaks (csv_line E)"
  shows "map csv_body (filter is_row_object (snd (main E A))) =
       map (\<lambda>r. encode E (row_line E fns r))
         (take (length (filter is_row_object (snd (main E A)))) (records src))
     \<and> length (filter is_row_object (snd (main E A))) \<le> length (records src)
     \<and> row_line E fns r = csv_line E (row_cells fns r) @ [CHR 0x0A]
     \<and> line_breaks (row_line E fns r) = 1 + sum_list (map line_breaks (row_cells fns r))
     \<and> (line_breaks (row_line E fns r) = 1)
         = list_all (\<lambda>c. CHR 0x0A \<notin> set c) (row_cells fns r)"
proof -
  have lb: "line_breaks (row_line E fns r) = 1 + sum_list (map line_breaks (row_cells fns r))"
    using fmt by (simp add: row_line_cells line_breaks_append keeps_line_breaks_def)
       (simp add: line_breaks_def)
  have one: "(line_breaks (row_line E fns r) = 1)
         = list_all (\<lambda>c. CHR 0x0A \<notin> set c) (row_cells fns r)"
    unfolding lb using sum_line_breaks_zero [of "row_cells fns r"] by simp
  from no_header_bodies [OF nh pin src hd] lb one row_line_cells [of E fns r]
  show ?thesis by simp
qed

theorem no_header_one_record_witness:
  "keeps_line_breaks (csv_line (csv_env (sample_source [sample_row ''a'', memo_row])))
   \<and> map csv_body (filter is_row_object (snd (main
        (csv_env (sample_source [sample_row ''a'', memo_row])) (sample_args ''false'' ''true''))))
     = [Some (''a,7'' @ [CHR 0x0A]),
        Some (''a,'' @ [CHR 0x22] @ ''x'' @ [CHR 0x0A] @ ''y'' @ [CHR 0x22, CHR 0x0A])]
   \<and> line_breaks (row_line (csv_env (sample_source [sample_row ''a'', memo_row]))
        sample_header (sample_row ''a'')) = 1
   \<and> line_breaks (row_line (csv_env (sample_source [sample_row ''a'', memo_row]))
        sample_header memo_row) = 2"
proof -
  let ?rs = "[sample_row ''a'', memo_row]"
  let ?E = "csv_env (sample_source ?rs)"
  let ?A = "sample_args ''false'' ''true''"
  have h0: "\<not> str2bool (include_header ?A)" by code_simp
  have h1: "parse_s3_uri (input_s3_uri ?A) = Inr (''in'', ''data.csv'')" by code_simp
  have h3: "get_object ?E ''in'' ''data.csv'' = Inr (sample_source ?rs)"
    by (simp add: csv_env_def)
  have h4: "header (sample_source ?rs) = Some sample_header"
    by (simp add: sample_source_def)
  have "keeps_line_breaks (csv_minimal (CHR '','') (CHR 0x22))"
    by (rule csv_minimal_keeps_line_breaks) simp_all
  then have h5: "keeps_line_breaks (csv_line ?E)" by (simp add: csv_env_def)
  have l: "length (filter is_row_object (snd (main ?E ?A))) = 2" by code_simp
  have b: "map (\<lambda>r. encode ?E (row_line ?E sample_header r)) (take 2 (records (sample_source ?rs)))
      = [Some (''a,7'' @ [CHR 0x0A]),
         Some (''a,'' @ [CHR 0x22] @ ''x'' @ [CHR 0x0A] @ ''y'' @ [CHR 0x22, CHR 0x0A])]"
    by code_simp
  have s1: "1 + sum_list (map line_breaks (row_cells sample_header (sample_row ''a''))) = 1"
    by code_simp
  have s2: "1 + sum_list (map line_breaks (row_cells sample_header memo_row)) = 2"
    by code_simp
  note t1 = no_header_one_record [OF h0 h1 h3 h4 h5, of "sample_row ''a''", unfolded l b s1]
  note t2 = no_header_one_record [OF h0 h1 h3 h4 h5, of memo_row, unfolded l b s2]
  from t1 have bodies: "map csv_body (filter is_row_object (snd (main ?E ?A)))
     = [Some (''a,7'' @ [CHR 0x0A]),
        Some (''a,'' @ [CHR 0x22] @ ''x'' @ [CHR 0x0A] @ ''y'' @ [CHR 0x22, CHR 0x0A])]"
    by (rule conjunct1)
  from t1 have c1: "line_breaks (row_line ?E sample_header (sample_row ''a'')) = 1"
    by (elim conjE)
  from t2 have c2: "line_breaks (row_line ?E sample_header memo_row) = 2"
    by (elim conjE)
  show ?thesis by (intro conjI h5 bodies c1 c2)
qed

section \<open>A write that fails\<close>

text \<open>
  The store failing at the write of row \<open>j\<close>, in general: the rows before it have been
  written, there is no manifest, and the failure report, when it can be written, counts
  \<open>j\<close> processed rows.
\<close>

lemma process_row_put_fails:
  assumes "row_bytes E hdr fns r = Inr d" and "put_fails E (calls st)"
  shows "\<exists>st'. process_row E A hdr ob op fns idx r st
           = (st', Some (StorageError ''put_object failed''))
       \<and> objects st' = objects st \<and> total st' = total st + 1 \<and> calls st' = calls st + 1
       \<and> fieldnames st' = fieldnames st"
  using assms by (simp add: process_row_def put_object_def Let_def)

lemma process_row_succeeds:
  assumes "row_bytes E hdr fns r = Inr d" and "\<not> put_fails E (calls st)"
  shows "\<exists>st'. process_row E A hdr ob op fns idx r st = (st', None)
       \<and> length (objects st') = length (objects st) + 1
       \<and> total st' = total st + 1 \<and> calls st' = calls st + 1"
  using assms by (simp add: process_row_def put_object_def Let_def)

lemma rows_loop_put_failure:
  assumes "i < length rs"
    and "\<forall>k\<le>i. \<exists>d. row_bytes E hdr fns (rs ! k) = Inr d"
    and "\<forall>k<i. \<not> put_fails E (calls st + k)"
    and "put_fails E (calls st + i)"
  shows "\<exists>st'. rows_loop E A hdr ob op fns stop idx rs st
           = (st', Some (StorageError ''put_object failed''))
       \<and> length (objects st') = length (objects st) + i
       \<and> total st' = total st + i + 1 \<and> calls st' = calls st + i + 1"
  using assms
proof (induction rs arbitrary: i idx st)
  case Nil
  then show ?case by simp
next
  case (Cons r rs)
  from Cons.prems(2) obtain d where d: "row_bytes E hdr fns r = Inr d" by force
  show ?case
  proof (cases i)
    case 0
    with Cons.prems have "put_fails E (calls st)" by simp
    from process_row_put_fails [OF d this, of A ob op idx] 0 show ?thesis by auto
  next
    case (Suc j)
    with Cons.prems have nf: "\<not> put_fails E (calls st)" by auto
    from process_row_succeeds [OF d nf, of A ob op idx] obtain st1 where
      p: "process_row E A hdr ob op fns idx r st = (st1, None)" and
      s: "length (objects st1) = length (objects st) + 1" "total st1 = total st + 1"
        "calls st1 = calls st + 1"
      by blast
    have 1: "j < length rs" using Cons.prems(1) Suc by simp
    have 2: "\<forall>k\<le>j. \<exists>d. row_bytes E hdr fns (rs ! k) = Inr d"
    proof (intro allI impI)
      fix k assume "k \<le> j"
      then have "Suc k \<le> i" using Suc by simp
      with Cons.prems(2) have "\<exists>d. row_bytes E hdr fns ((r # rs) ! Suc k) = Inr d" by blast
      then show "\<exists>d. row_bytes E hdr fns (rs ! k) = Inr d" by simp
    qed
    have 3: "\<forall>k<j. \<not> put_fails E (calls st1 + k)"
    proof (intro allI impI)
      fix k assume "k < j"
      then have "Suc k < i" using Suc by simp
      with Cons.prems(3) have "\<not> put_fails E (calls st + Suc k)" by blast
      then show "\<not> put_fails E (calls st1 + k)" using s by simp
    qed
    have 4: "put_fails E (calls st1 + j)" using Cons.prems(4) Suc s by simp
    from Cons.IH [OF 1 2 3 4, of "Suc idx"] obtain st' where
      "rows_loop E A hdr ob op fns stop (Suc idx) rs st1
           = (st', Some (StorageError ''put_object failed''))"
      "length (objects st') = length (objects st1) + j"
      "total st' = total st1 + j + 1" "calls st' = calls st1 + j + 1"
      by blast
    with p s Suc show ?thesis by simp
  qed
qed

lemma failure_docs_rows:
  "failure_docs (map (\<lambda>(nm, d). row_object ob op nm d) xs @ rest) = failure_docs rest"
  by (induction xs) (auto simp: failure_docs_def row_object_def)

lemma storage_failure_at_row:
  assumes pin: "parse_s3_uri (input_s3_uri A) = Inr (ib, ik)"
    and pout: "parse_s3_uri (output_s3_uri A) = Inr (ob, op0)"
    and src: "get_object E ib ik = Inr src"
    and hd: "header src = Some fns" "fns \<noteq> []"
    and j: "1 \<le> j" "j \<le> length (records src)"
    and ser: "\<forall>i<j. \<exists>d. row_bytes E (str2bool (include_header A)) fns (records src ! i) = Inr d"
    and good: "\<forall>i<j - 1. \<not> put_fails E i"
    and bad: "put_fails E (j - 1)"
  shows "fst (main E A) = Raised (StorageError ''put_object failed'')
     \<and> length (filter is_row_object (snd (main E A))) = j - 1
     \<and> filter is_manifest_object (snd (main E A)) = []
     \<and> map f_processed_rows (failure_docs (snd (main E A))) =
         (if str2bool (write_run_log A) \<and> \<not> put_fails E j then [j] else [])"
proof -
  let ?st0 = "init_state\<lparr>fieldnames := Some fns\<rparr>"
  let ?op = "normalize_prefix op0"
  have c0: "calls ?st0 = 0" "objects ?st0 = []" "total ?st0 = 0"
    by (simp_all add: init_state_def)
  have 1: "j - 1 < length (records src)" using j by simp
  have 2: "\<forall>k\<le>j - 1. \<exists>d. row_bytes E (str2bool (include_header A)) fns (records src ! k) = Inr d"
    using ser j by (metis One_nat_def Suc_pred le_imp_less_Suc less_eq_Suc_le)
  have 3: "\<forall>k<j - 1. \<not> put_fails E (calls ?st0 + k)" using good c0 by simp
  have 4: "put_fails E (calls ?st0 + (j - 1))" using bad c0 by simp
  from rows_loop_put_failure [OF 1 2 3 4, of A ob ?op "broken src" 1] obtain st1 where
    loop: "rows_loop E A (str2bool (include_header A)) ob ?op fns (broken src) 1 (records src) ?st0
       = (st1, Some (StorageError ''put_object failed''))" and
    l: "length (objects st1) = j - 1" and t: "total st1 = j" and c: "calls st1 = j"
    using c0 j by auto
  from rows_loop_shape [OF loop] obtain xs where
    o: "objects st1 = map (\<lambda>(nm, d). row_object ob ?op nm d) xs"
    using c0 by auto
  from main_cases [OF pin pout src hd loop] have
    sn: "snd (main E A) = objects st1 @
       (if str2bool (write_run_log A) \<and> \<not> put_fails E (calls st1)
        then [failed_put A ob ?op (StorageError ''put_object failed'') st1] else [])"
    and fs: "fst (main E A) = Raised (StorageError ''put_object failed'')"
    by auto
  have rows: "list_all is_row_object (objects st1)"
    unfolding o by (rule rows_all_row_objects)
  have rest: "list_all (\<lambda>p. \<not> is_row_object p)
       (if str2bool (write_run_log A) \<and> \<not> put_fails E (calls st1)
        then [failed_put A ob ?op (StorageError ''put_object failed'') st1] else [])"
    by (simp add: not_row_failed)
  have f: "filter is_row_object (snd (main E A)) = objects st1"
    unfolding sn using rows rest by (rule filter_rows_append)
  have m: "filter is_manifest_object (snd (main E A)) = []"
    unfolding sn o by (simp add: not_manifest_rows not_manifest_failed)
  have d: "map f_processed_rows (failure_docs (snd (main E A))) =
         (if str2bool (write_run_log A) \<and> \<not> put_fails E j then [j] else [])"
    unfolding sn o failure_docs_rows
    by (simp add: failure_docs_failed_put failure_docs_nil t c)
  show ?thesis using fs f l m d by simp
qed

section \<open>Two runs that go wrong\<close>

text \<open>
  Claim C1 fails on the code. The identifiers \<open>a\<close>, \<open>a\<close>, \<open>a-1\<close> give the base names \<open>a\<close>, \<open>a\<close>,
  \<open>a-1\<close>: the second row is the first duplicate of \<open>a\<close> and is named \<open>a-1\<close>, the third row is
  the first occurrence of \<open>a-1\<close> and is named \<open>a-1\<close> too. The run succeeds and writes the
  second and the third row to the same key.
\<close>

theorem suffixed_name_collides:
  "fst (main (sample_env (sample_source [sample_row ''a'', sample_row ''a'', sample_row ''a-1''])
         (\<lambda>n. False)) (sample_args ''true'' ''true'')) = Succeeded
   \<and> map key (filter is_row_object (snd (main
        (sample_env (sample_source [sample_row ''a'', sample_row ''a'', sample_row ''a-1''])
         (\<lambda>n. False)) (sample_args ''true'' ''true''))))
     = [''split/a.csv'', ''split/a-1.csv'', ''split/a-1.csv'']
   \<and> \<not> distinct (map key (filter is_row_object (snd (main
        (sample_env (sample_source [sample_row ''a'', sample_row ''a'', sample_row ''a-1''])
         (\<lambda>n. False)) (sample_args ''true'' ''true'')))))"
  by code_simp

text \<open>
  Claim C2 fails on the code in its last part. With three rows and the store failing at
  the write of row 2, one per-row object has been written and no manifest, as the claim
  says, but the failure report counts two processed rows, not one: the counter is
  incremented at the top of the loop body, before the write. When the reader fails at row
  2 instead, the report counts one row.
\<close>

theorem failed_write_is_counted:
  "fst (main (sample_env (sample_source [sample_row ''a'', sample_row ''b'', sample_row ''c''])
         (\<lambda>n. n = 1)) (sample_args ''true'' ''true'')) = Raised (StorageError ''put_object failed'')
   \<and> map key (filter is_row_object (snd (main
        (sample_env (sample_source [sample_row ''a'', sample_row ''b'', sample_row ''c''])
         (\<lambda>n. n = 1)) (sample_args ''true'' ''true'')))) = [''split/a.csv'']
   \<and> filter is_manifest_object (snd (main
        (sample_env (sample_source [sample_row ''a'', sample_row ''b'', sample_row ''c''])
         (\<lambda>n. n = 1)) (sample_args ''true'' ''true''))) = []
   \<and> map f_processed_rows (failure_docs (snd (main
        (sample_env (sample_source [sample_row ''a'', sample_row ''b'', sample_row ''c''])
         (\<lambda>n. n = 1)) (sample_args ''true'' ''true'')))) = [2]
   \<and> map f_processed_rows (failure_docs (snd (main
        (sample_env \<lparr>header = Some sample_header, records = [sample_row ''a''],
                     broken = Some (ReaderError ''malformed record'')\<rparr>
         (\<lambda>n. False)) (sample_args ''true'' ''true'')))) = [1]"
  by code_simp

end
